theory Spec2Isabelle
  imports Complex_Main "HOL-Library.Word" "HOL-Library.Signed_Division"
begin

unbundle bit_operations_syntax

section \<open>Machine types and outcomes\<close>

text \<open>
  The sample is one C++ translation unit, \<^verbatim>\<open>week3-1-BoxApp.cpp\<close>.  \<^verbatim>\<open>UINT\<close> is a 32-bit
  and \<^verbatim>\<open>UINT64\<close> a 64-bit unsigned integer, with wrap-around arithmetic.  An
  \<^verbatim>\<open>HRESULT\<close> is a signed return code; it denotes failure when it is negative.
  The entries of an \<^verbatim>\<open>XMFLOAT4X4\<close> are only moved around (loaded, transposed, stored)
  by the code modelled here, never used in arithmetic, so they are kept as reals.
\<close>

type_synonym UINT = "32 word"
type_synonym UINT64 = "64 word"
type_synonym HRESULT = int
type_synonym XMFLOAT3 = "real \<times> real \<times> real"
type_synonym XMFLOAT4X4 = "real list list"

text \<open>
  A call of the program either returns, throws a \<^verbatim>\<open>DxException\<close> carrying the failing
  return code, never returns (an infinite wait), or has undefined behaviour (a null
  pointer or an index out of range).
\<close>

datatype 'a outcome = Returns 'a | Throws HRESULT | Hangs | Crash

fun andThen :: "'a outcome \<Rightarrow> ('a \<Rightarrow> 'b outcome) \<Rightarrow> 'b outcome" where
  "andThen (Returns x) f = f x"
| "andThen (Throws hr) f = Throws hr"
| "andThen Hangs f = Hangs"
| "andThen Crash f = Crash"

fun returned :: "'a outcome \<Rightarrow> 'a option" where
  "returned (Returns x) = Some x"
| "returned (Throws hr) = None"
| "returned Hangs = None"
| "returned Crash = None"

definition FAILED :: "HRESULT \<Rightarrow> bool" where
  "FAILED hr = (hr < 0)"

text \<open>
  Modelled from the spec: the macro \<^verbatim>\<open>ThrowIfFailed\<close> (d3dUtil.h) is not among the
  sources.  The spec: a native call's failure is "converted into a thrown diagnostic
  carrying the failing return code".
\<close>

definition ThrowIfFailed :: "HRESULT \<Rightarrow> unit outcome" where
  "ThrowIfFailed hr = (if FAILED hr then Throws hr else Returns ())"

definition gNumFrameResources :: nat where
  "gNumFrameResources = 3"

definition Identity4x4 :: XMFLOAT4X4 where
  "Identity4x4 = [[1, 0, 0, 0], [0, 1, 0, 0], [0, 0, 1, 0], [0, 0, 0, 1]]"

definition XMMatrixTranspose :: "XMFLOAT4X4 \<Rightarrow> XMFLOAT4X4" where
  "XMMatrixTranspose m = map (\<lambda>j. map (\<lambda>row. row ! j) m) [0..<4]"


section \<open>Geometry\<close>

text \<open>
  Modelled from the spec: \<^verbatim>\<open>GeometryGenerator::MeshData\<close>, \<^verbatim>\<open>SubmeshGeometry\<close> and
  \<^verbatim>\<open>MeshGeometry\<close> are declared in headers that are not among the sources.  The spec:
  a mesh geometry is "a named collection of vertex/index data shared by many render
  items, partitioned into named sub-ranges (submeshes) each with an index count, start
  offset, and base vertex offset".  The meshes that the generator returns are inputs
  of the model.
\<close>

record MeshData =
  Vertices :: "XMFLOAT3 list"
  Indices32 :: "32 word list"

definition GetIndices16 :: "MeshData \<Rightarrow> 16 word list" where
  "GetIndices16 m = map ucast (Indices32 m)"

record SubmeshGeometry =
  IndexCount :: UINT
  StartIndexLocation :: UINT
  BaseVertexLocation :: int

datatype Color = Crimson | Red | Green | Yellow | SaddleBrown | Navy | DarkViolet | MidnightBlue

record Vertex =
  Pos :: XMFLOAT3
  Color :: Color

record MeshGeometry =
  Name :: string
  VertexBufferCPU :: "Vertex list"
  IndexBufferCPU :: "16 word list"
  DrawArgs :: "string \<rightharpoonup> SubmeshGeometry"

text \<open>\<^verbatim>\<open>DrawArgs[name]\<close>: a missing key yields a value-initialised submesh.\<close>

definition DrawArgs_at :: "MeshGeometry \<Rightarrow> string \<Rightarrow> SubmeshGeometry" where
  "DrawArgs_at geo name =
     (case DrawArgs geo name of
        Some sm \<Rightarrow> sm
      | None \<Rightarrow> \<lparr>SubmeshGeometry.IndexCount = 0, SubmeshGeometry.StartIndexLocation = 0,
                 SubmeshGeometry.BaseVertexLocation = 0\<rparr>)"

text \<open>The eleven meshes created at the top of \<^verbatim>\<open>BuildShapeGeometry\<close>.\<close>

record Meshes =
  box :: MeshData
  door :: MeshData
  cylinder :: MeshData
  grid :: MeshData
  rooftop :: MeshData
  cone :: MeshData
  wedge :: MeshData
  torus :: MeshData
  pyramid :: MeshData
  diamond :: MeshData
  diamond1 :: MeshData

definition nVertices :: "MeshData \<Rightarrow> UINT" where
  "nVertices m = of_nat (length (Vertices m))"

definition nIndices :: "MeshData \<Rightarrow> UINT" where
  "nIndices m = of_nat (length (Indices32 m))"

definition Submesh :: "UINT \<Rightarrow> UINT \<Rightarrow> UINT \<Rightarrow> SubmeshGeometry" where
  "Submesh cnt start base =
     \<lparr>SubmeshGeometry.IndexCount = cnt, SubmeshGeometry.StartIndexLocation = start,
      SubmeshGeometry.BaseVertexLocation = sint base\<rparr>"

definition colored :: "Color \<Rightarrow> XMFLOAT3 list \<Rightarrow> Vertex list" where
  "colored c ps = map (\<lambda>p. \<lparr>Pos = p, Color = c\<rparr>) ps"

text \<open>
  The body of \<^verbatim>\<open>BuildShapeGeometry\<close> from the offsets on (source lines 665 to 880), for
  the path on which both \<^verbatim>\<open>D3DCreateBlob\<close> calls succeed.  Every offset is written as the
  source computes it.  The last vertex loop runs over \<^verbatim>\<open>diamond1.Vertices.size()\<close> but
  reads \<^verbatim>\<open>diamond.Vertices[i]\<close>, which is out of range when \<^verbatim>\<open>diamond1\<close> is the larger.
\<close>

definition ShapeGeometry :: "Meshes \<Rightarrow> MeshGeometry outcome" where
  "ShapeGeometry g =
    (let boxVertexOffset = (0 :: UINT);
         cylinderVertexOffset = nVertices (box g);
         gridVertexOffset = cylinderVertexOffset + nVertices (cylinder g);
         roofVertexOffset = gridVertexOffset + nVertices (grid g);
         doorVertexOffset = boxVertexOffset + nVertices (box g) + nVertices (cylinder g)
                              + nVertices (grid g) + nVertices (rooftop g);
         coneVertexOffset = doorVertexOffset + nVertices (door g);
         wedgeVertexOffset = coneVertexOffset + nVertices (cone g);
         torusVertexOffset = wedgeVertexOffset + nVertices (wedge g);
         pyramidVertexOffset = torusVertexOffset + nVertices (torus g);
         diamondVertexOffset = pyramidVertexOffset + nVertices (diamond g);
         diamond1VertexOffset = diamondVertexOffset + nVertices (diamond1 g);
         boxIndexOffset = (0 :: UINT);
         cylinderIndexOffset = nIndices (box g);
         gridIndexOffset = cylinderIndexOffset + nIndices (cylinder g);
         roofIndexOffset = gridIndexOffset + nVertices (grid g);
         doorIndexOffset = boxIndexOffset + nIndices (box g) + nIndices (cylinder g)
                             + nIndices (grid g) + nIndices (rooftop g);
         coneIndexOffset = doorIndexOffset + nIndices (door g);
         wedgeIndexOffset = coneIndexOffset + nIndices (cone g);
         torusIndexOffset = wedgeIndexOffset + nIndices (wedge g);
         pyramidIndexOffset = torusIndexOffset + nIndices (torus g);
         diamondIndexOffset = pyramidIndexOffset + nIndices (diamond g);
         diamond1IndexOffset = diamondIndexOffset + nIndices (diamond1 g);
         boxSubmesh = Submesh (nIndices (box g)) boxIndexOffset boxVertexOffset;
         cylinderSubmesh = Submesh (nIndices (cylinder g)) cylinderIndexOffset cylinderVertexOffset;
         gridSubmesh = Submesh (nIndices (grid g)) gridIndexOffset gridVertexOffset;
         roofSubmesh = Submesh (nIndices (rooftop g)) roofVertexOffset roofVertexOffset;
         doorSubmesh = Submesh (nIndices (door g)) doorIndexOffset doorVertexOffset;
         coneSubmesh = Submesh (nIndices (cone g)) coneIndexOffset coneVertexOffset;
         wedgeSubmesh = Submesh (nIndices (wedge g)) wedgeIndexOffset wedgeVertexOffset;
         torusSubmesh = Submesh (nIndices (torus g)) torusIndexOffset torusVertexOffset;
         pyramidSubmesh = Submesh (nIndices (pyramid g)) pyramidIndexOffset pyramidVertexOffset;
         diamondSubmesh = Submesh (nIndices (diamond g)) diamondIndexOffset diamondVertexOffset;
         diamond1Submesh = Submesh (nIndices (diamond1 g)) diamond1IndexOffset diamond1VertexOffset;
         indices = GetIndices16 (box g) @ GetIndices16 (cylinder g) @ GetIndices16 (grid g)
                     @ GetIndices16 (rooftop g) @ GetIndices16 (door g) @ GetIndices16 (cone g)
                     @ GetIndices16 (wedge g) @ GetIndices16 (torus g) @ GetIndices16 (pyramid g)
                     @ GetIndices16 (diamond g) @ GetIndices16 (diamond1 g)
     in if length (Vertices (diamond g)) < length (Vertices (diamond1 g)) then Crash
        else Returns
          \<lparr>Name = ''shapeGeo'',
           VertexBufferCPU =
             colored Crimson (Vertices (box g)) @ colored Red (Vertices (cylinder g))
               @ colored Green (Vertices (grid g)) @ colored Yellow (Vertices (rooftop g))
               @ colored SaddleBrown (Vertices (door g)) @ colored Yellow (Vertices (cone g))
               @ colored Navy (Vertices (wedge g)) @ colored DarkViolet (Vertices (torus g))
               @ colored MidnightBlue (Vertices (pyramid g)) @ colored Yellow (Vertices (diamond g))
               @ colored Yellow (take (length (Vertices (diamond1 g))) (Vertices (diamond g))),
           IndexBufferCPU = indices,
           DrawArgs = [''box'' \<mapsto> boxSubmesh, ''grid'' \<mapsto> gridSubmesh,
                       ''cylinder'' \<mapsto> cylinderSubmesh, ''rooftop'' \<mapsto> roofSubmesh,
                       ''door'' \<mapsto> doorSubmesh, ''cone'' \<mapsto> coneSubmesh,
                       ''wedge'' \<mapsto> wedgeSubmesh, ''torus'' \<mapsto> torusSubmesh,
                       ''pyramid'' \<mapsto> pyramidSubmesh, ''diamond'' \<mapsto> diamondSubmesh,
                       ''diamond1'' \<mapsto> diamond1Submesh]\<rparr>)"

text \<open>The indices a submesh makes the GPU read: its range of the combined index buffer.\<close>

definition submesh_indices :: "MeshGeometry \<Rightarrow> SubmeshGeometry \<Rightarrow> 16 word list" where
  "submesh_indices geo sm =
     take (unat (SubmeshGeometry.IndexCount sm))
       (drop (unat (SubmeshGeometry.StartIndexLocation sm)) (IndexBufferCPU geo))"


section \<open>Single-precision floating point\<close>

text \<open>
  The camera angles and the radius are C++ \<^verbatim>\<open>float\<close>s, IEEE 754 binary32 numbers: every
  operation rounds its exact result to the nearest number with a 24-bit significand,
  ties to the even significand.  \<open>rne\<close> rounds to the nearest integer, ties to even;
  \<open>float_exponent\<close> is the exponent of the binade, searched downwards from the largest
  exponent 127 and not below the smallest normal exponent -126, so that the subnormal
  numbers share the spacing \<open>2 ^ -149\<close>.  A result of magnitude \<open>2 ^ 128\<close> or more is an
  infinity.  The sign of a zero is not kept: it shows only in a division by zero, and
  the code modelled here divides one constant by another.
\<close>

definition pow2 :: "int \<Rightarrow> real" where
  "pow2 e = (if 0 \<le> e then 2 ^ nat e else 1 / 2 ^ nat (- e))"

definition rne :: "real \<Rightarrow> int" where
  "rne x = (let f = \<lfloor>x\<rfloor>; d = x - of_int f
            in if d < 1 / 2 then f else if 1 / 2 < d then f + 1
               else if even f then f else f + 1)"

fun expo :: "nat \<Rightarrow> real \<Rightarrow> int \<Rightarrow> int" where
  "expo 0 a e = e"
| "expo (Suc n) a e = (if pow2 e \<le> a then e else expo n a (e - 1))"

definition float_exponent :: "real \<Rightarrow> int" where
  "float_exponent x = expo 253 \<bar>x\<bar> 127"

text \<open>A \<^verbatim>\<open>float\<close>: a finite number, an infinity (\<open>True\<close> for the negative one) or a NaN.\<close>

datatype float = Finite real | Infinity bool | NaN

definition round32 :: "real \<Rightarrow> float" where
  "round32 x =
     (let u = pow2 (float_exponent x - 23); r = of_int (rne (x / u)) * u
      in if pow2 128 \<le> \<bar>r\<bar> then Infinity (x < 0) else Finite r)"

fun fneg :: "float \<Rightarrow> float" where
  "fneg (Finite a) = Finite (- a)"
| "fneg (Infinity n) = Infinity (\<not> n)"
| "fneg NaN = NaN"

fun fadd :: "float \<Rightarrow> float \<Rightarrow> float" where
  "fadd (Finite a) (Finite b) = round32 (a + b)"
| "fadd (Finite a) (Infinity n) = Infinity n"
| "fadd (Infinity n) (Finite b) = Infinity n"
| "fadd (Infinity n) (Infinity m) = (if n = m then Infinity n else NaN)"
| "fadd NaN b = NaN"
| "fadd a NaN = NaN"

definition fsub :: "float \<Rightarrow> float \<Rightarrow> float" where
  "fsub a b = fadd a (fneg b)"

fun fmul :: "float \<Rightarrow> float \<Rightarrow> float" where
  "fmul (Finite a) (Finite b) = round32 (a * b)"
| "fmul (Finite a) (Infinity n) = (if a = 0 then NaN else Infinity (n \<noteq> (a < 0)))"
| "fmul (Infinity n) (Finite b) = (if b = 0 then NaN else Infinity (n \<noteq> (b < 0)))"
| "fmul (Infinity n) (Infinity m) = Infinity (n \<noteq> m)"
| "fmul NaN b = NaN"
| "fmul a NaN = NaN"

fun fdiv :: "float \<Rightarrow> float \<Rightarrow> float" where
  "fdiv (Finite a) (Finite b) =
     (if b = 0 then (if a = 0 then NaN else Infinity (a < 0)) else round32 (a / b))"
| "fdiv (Finite a) (Infinity n) = Finite 0"
| "fdiv (Infinity n) (Finite b) = Infinity (n \<noteq> (b < 0))"
| "fdiv (Infinity n) (Infinity m) = NaN"
| "fdiv NaN b = NaN"
| "fdiv a NaN = NaN"

text \<open>\<^verbatim>\<open>a < b\<close> on floats: false as soon as one side is a NaN.\<close>

fun fless :: "float \<Rightarrow> float \<Rightarrow> bool" where
  "fless (Finite a) (Finite b) = (a < b)"
| "fless (Finite a) (Infinity n) = (\<not> n)"
| "fless (Infinity n) (Finite b) = n"
| "fless (Infinity n) (Infinity m) = (n \<and> \<not> m)"
| "fless NaN b = False"
| "fless a NaN = False"

text \<open>
  \<^verbatim>\<open>int\<close> and \<^verbatim>\<open>LONG\<close> are 32-bit two's complement integers; \<^verbatim>\<open>static_cast<float>\<close> of one
  rounds it to the nearest \<^verbatim>\<open>float\<close>.  \<^verbatim>\<open>XM_PI\<close> is the constant \<^verbatim>\<open>3.141592654f\<close> of
  DirectXMath.h.
\<close>

type_synonym INT32 = "32 word"

definition float_of_INT32 :: "INT32 \<Rightarrow> float" where
  "float_of_INT32 i = round32 (real_of_int (sint i))"

definition XM_PI :: float where
  "XM_PI = round32 3.141592654"


section \<open>Render items, frame resources and the application state\<close>

text \<open>
  \<^verbatim>\<open>struct RenderItem\<close> (source lines 39 to 68).  \<open>Geo\<close> is the pointer to the shared
  mesh geometry, kept as the key under which \<open>mGeometries\<close> owns it.  The primitive
  topology is the same constant for every item and is left out.
\<close>

record RenderItem =
  World :: XMFLOAT4X4
  NumFramesDirty :: int
  ObjCBIndex :: UINT
  Geo :: "string option"
  IndexCount :: UINT
  StartIndexLocation :: UINT
  BaseVertexLocation :: int

text \<open>The default member initialisers: \<^verbatim>\<open>NumFramesDirty = gNumFrameResources\<close>, \<^verbatim>\<open>ObjCBIndex = -1\<close>.\<close>

definition RenderItem_default :: RenderItem where
  "RenderItem_default =
     \<lparr>World = Identity4x4, NumFramesDirty = int gNumFrameResources, ObjCBIndex = - 1,
      Geo = None, IndexCount = 0, StartIndexLocation = 0, BaseVertexLocation = 0\<rparr>"

text \<open>
  Modelled from the spec: \<^verbatim>\<open>FrameResource\<close> and \<^verbatim>\<open>UploadBuffer\<close> (FrameResource.h,
  UploadBuffer.h) are not among the sources.  The spec: a frame resource is "a
  per-in-flight-frame bundle containing a command-allocator, a per-pass constant buffer,
  a per-object constant buffer array, and a fence value marking when the GPU finishes
  consuming it"; resources are updated "via regular byte-copy into mapped constant
  buffers".  A constant buffer is the list of its elements, \<open>None\<close> for an element never
  written; \<open>CopyData\<close> outside the buffer is undefined behaviour.
\<close>

record 'p FrameResource =
  PassCB :: "'p option list"
  ObjectCB :: "XMFLOAT4X4 option list"
  Fence :: UINT64

definition FrameResource_new :: "UINT \<Rightarrow> UINT \<Rightarrow> 'p FrameResource" where
  "FrameResource_new passCount objectCount =
     \<lparr>PassCB = replicate (unat passCount) None, ObjectCB = replicate (unat objectCount) None,
      Fence = 0\<rparr>"

definition CopyData :: "'a option list \<Rightarrow> nat \<Rightarrow> 'a \<Rightarrow> 'a option list outcome" where
  "CopyData cb elementIndex v =
     (if elementIndex < length cb then Returns (cb[elementIndex := Some v]) else Crash)"

text \<open>
  A constant-buffer view names the buffer element it points at: element \<open>i\<close> of the
  per-object buffer of frame resource \<open>f\<close>, or the per-pass buffer of \<open>f\<close>.  The
  descriptor heap is the table of the views created so far, indexed by descriptor
  offset.  Both places that compute an offset hand it to
  \<^verbatim>\<open>CD3DX12_..._DESCRIPTOR_HANDLE::Offset(INT, UINT)\<close>, hence the signed index.
\<close>

datatype CBV = ObjectCBV nat nat | PassCBV nat

record CbvHeap =
  NumDescriptors :: UINT
  views :: "int \<rightharpoonup> CBV"

record DrawCall =
  cbvIndex :: UINT
  dcIndexCount :: UINT
  dcStartIndexLocation :: UINT
  dcBaseVertexLocation :: int

record CommandList =
  pso :: string
  passCbvIndex :: int
  draws :: "DrawCall list"

text \<open>
  Modelled from the spec: the command queue and the fence are native objects.  The spec:
  "Single CPU thread drives frame submission; the GPU executes asynchronously", and the
  fence is a "counter used to track GPU completion": "the new fence point won't be set
  until the GPU finishes processing all the commands prior to this Signal()" (source
  line 349).  The queue is the list of all commands submitted so far, \<open>gpuExecuted\<close>
  counts how many of them the GPU has finished, and \<open>mFence\<close> is the value that
  \<^verbatim>\<open>GetCompletedValue\<close> returns.
\<close>

datatype QueueCmd = ExecuteCommandLists CommandList | Signal UINT64

record 'p ShapesApp =
  mFrameResources :: "'p FrameResource list"
  mCurrFrameResource :: "nat option"
  mCurrFrameResourceIndex :: int
  mCbvHeap :: "CbvHeap option"
  mGeometries :: "string \<rightharpoonup> MeshGeometry"
  mAllRitems :: "RenderItem list"
  mOpaqueRitems :: "nat list"
  mPassCbvOffset :: UINT
  mIsWireframe :: bool
  mTheta :: float
  mPhi :: float
  mRadius :: float
  mLastMousePos :: "INT32 \<times> INT32"
  mCurrentFence :: UINT64
  mCommandQueue :: "QueueCmd list"
  gpuExecuted :: nat
  mFence :: UINT64

text \<open>
  The member initialisers of \<^verbatim>\<open>ShapesApp\<close> (source lines 111 to 159).  \<open>mLastMousePos\<close>
  has none, and the members of the base class \<^verbatim>\<open>D3DApp\<close> are set by code that is not
  among the sources: both are parameters.  A pointer into \<open>mFrameResources\<close> or
  \<open>mAllRitems\<close> is the position of the object it points at.
\<close>

definition ShapesApp_new :: "INT32 \<times> INT32 \<Rightarrow> UINT64 \<Rightarrow> 'p ShapesApp" where
  "ShapesApp_new lastPos fence0 =
     \<lparr>mFrameResources = [], mCurrFrameResource = None, mCurrFrameResourceIndex = 0,
      mCbvHeap = None, mGeometries = Map.empty, mAllRitems = [], mOpaqueRitems = [],
      mPassCbvOffset = 0, mIsWireframe = False,
      mTheta = fmul (round32 1.5) XM_PI, mPhi = fmul (round32 0.2) XM_PI,
      mRadius = round32 15,
      mLastMousePos = lastPos, mCurrentFence = fence0, mCommandQueue = [],
      gpuExecuted = 0, mFence = fence0\<rparr>"


section \<open>Building the scene\<close>

definition BuildShapeGeometry :: "Meshes \<Rightarrow> 'p ShapesApp \<Rightarrow> 'p ShapesApp outcome" where
  "BuildShapeGeometry g s =
     andThen (ShapeGeometry g)
       (\<lambda>geo. Returns (s\<lparr>mGeometries := (mGeometries s)(Name geo \<mapsto> geo)\<rparr>))"

text \<open>
  One render item as \<^verbatim>\<open>BuildRenderItems\<close> fills it in: the world matrix, the
  constant-buffer index, the geometry and the draw arguments of the named submesh.
\<close>

definition newRitem :: "MeshGeometry \<Rightarrow> XMFLOAT4X4 \<Rightarrow> UINT \<Rightarrow> string \<Rightarrow> RenderItem" where
  "newRitem geo world cbIndex name =
     RenderItem_default
       \<lparr>World := world, ObjCBIndex := cbIndex, Geo := Some ''shapeGeo'',
        IndexCount := SubmeshGeometry.IndexCount (DrawArgs_at geo name),
        StartIndexLocation := SubmeshGeometry.StartIndexLocation (DrawArgs_at geo name),
        BaseVertexLocation := SubmeshGeometry.BaseVertexLocation (DrawArgs_at geo name)\<rparr>"

text \<open>
  The pattern \<^verbatim>\<open>item->ObjCBIndex = wallIndex++; ...; mAllRitems.push_back(item)\<close>, on the
  pair of the item list and the counter \<open>wallIndex\<close>.  The world matrices are products
  of floating-point scalings, translations and rotations; \<open>W k\<close> is the matrix of the
  \<open>k\<close>-th item pushed.
\<close>

definition pushIndexed ::
  "MeshGeometry \<Rightarrow> (nat \<Rightarrow> XMFLOAT4X4) \<Rightarrow> string \<Rightarrow> RenderItem list \<times> int \<Rightarrow> RenderItem list \<times> int" where
  "pushIndexed geo W name b =
     (fst b @ [newRitem geo (W (length (fst b))) (word_of_int (snd b)) name], snd b + 1)"

definition pushTower ::
  "MeshGeometry \<Rightarrow> (nat \<Rightarrow> XMFLOAT4X4) \<Rightarrow> nat \<Rightarrow> RenderItem list \<times> int \<Rightarrow> RenderItem list \<times> int" where
  "pushTower geo W i b =
     pushIndexed geo W ''cone''
       (fst b @ [newRitem geo (W (length (fst b))) (of_nat i) ''cylinder''], snd b)"

definition BuildRenderItems :: "(nat \<Rightarrow> XMFLOAT4X4) \<Rightarrow> 'p ShapesApp \<Rightarrow> 'p ShapesApp outcome" where
  "BuildRenderItems W s =
     (case mGeometries s ''shapeGeo'' of
        None \<Rightarrow> Crash
      | Some geo \<Rightarrow>
          (let b0 = (mAllRitems s, 4);
               b1 = fold (\<lambda>i. pushIndexed geo W ''box'') [0..<4] b0;
               b2 = fold (\<lambda>i. pushTower geo W i) [0..<4] b1;
               b3 = pushIndexed geo W ''door'' b2;
               b4 = pushIndexed geo W ''wedge'' b3;
               b5 = pushIndexed geo W ''wedge'' b4;
               b6 = fold (\<lambda>i. pushIndexed geo W ''torus'') [0..<2] b5;
               b7 = fold (\<lambda>i. pushIndexed geo W ''torus'') [0..<2] b6;
               b8 = pushIndexed geo W ''pyramid'' b7;
               b9 = pushIndexed geo W ''diamond'' b8;
               b10 = pushIndexed geo W ''diamond1'' b9;
               rs = fst b10;
               all = rs @ [newRitem geo (W (length rs)) (of_nat (length rs)) ''grid'']
           in Returns (s\<lparr>mAllRitems := all,
                         mOpaqueRitems := mOpaqueRitems s @ [0..<length all]\<rparr>)))"

definition BuildFrameResources :: "'p ShapesApp \<Rightarrow> 'p ShapesApp" where
  "BuildFrameResources s =
     fold (\<lambda>i s'. s'\<lparr>mFrameResources :=
                       mFrameResources s' @ [FrameResource_new 1 (of_nat (length (mAllRitems s')))]\<rparr>)
       [0..<gNumFrameResources] s"

definition BuildDescriptorHeaps :: "HRESULT \<Rightarrow> 'p ShapesApp \<Rightarrow> 'p ShapesApp outcome" where
  "BuildDescriptorHeaps hrCreate s =
     (let objCount = (of_nat (length (mOpaqueRitems s)) :: UINT);
          numDescriptors = (objCount + 1) * of_nat gNumFrameResources;
          s1 = s\<lparr>mPassCbvOffset := objCount * of_nat gNumFrameResources\<rparr>
      in andThen (ThrowIfFailed hrCreate)
           (\<lambda>u. Returns (s1\<lparr>mCbvHeap :=
                    Some \<lparr>NumDescriptors = numDescriptors, views = Map.empty\<rparr>\<rparr>)))"

text \<open>
  \<^verbatim>\<open>BuildConstantBufferViews\<close>: the list of the views created, in the order of the two
  loops, each with the heap index computed for it, and the heap after creating them.
  \<^verbatim>\<open>int heapIndex = frameIndex * objCount + i\<close> is computed in \<^verbatim>\<open>UINT\<close> and converted.
\<close>

definition objectViews :: "UINT \<Rightarrow> (int \<times> CBV) list" where
  "objectViews objCount =
     concat (map (\<lambda>frameIndex.
               map (\<lambda>i. (sint (of_nat frameIndex * objCount + of_nat i :: UINT),
                         ObjectCBV frameIndex i))
                 [0..<unat objCount])
             [0..<gNumFrameResources])"

definition passViews :: "UINT \<Rightarrow> (int \<times> CBV) list" where
  "passViews passCbvOffset =
     map (\<lambda>frameIndex. (sint (passCbvOffset + of_nat frameIndex :: UINT), PassCBV frameIndex))
       [0..<gNumFrameResources]"

definition CreateConstantBufferView :: "int \<times> CBV \<Rightarrow> CbvHeap \<Rightarrow> CbvHeap" where
  "CreateConstantBufferView v h = h\<lparr>views := (views h)(fst v \<mapsto> snd v)\<rparr>"

definition BuildConstantBufferViews :: "'p ShapesApp \<Rightarrow> 'p ShapesApp outcome" where
  "BuildConstantBufferViews s =
     (case mCbvHeap s of
        None \<Rightarrow> Crash
      | Some h \<Rightarrow>
          if length (mFrameResources s) < gNumFrameResources then Crash
          else Returns (s\<lparr>mCbvHeap :=
                 Some (fold CreateConstantBufferView
                         (objectViews (of_nat (length (mOpaqueRitems s)))
                            @ passViews (mPassCbvOffset s)) h)\<rparr>))"

text \<open>
  The part of \<^verbatim>\<open>ShapesApp::Initialize\<close> that builds the scene, in the order of the
  source (lines 206 to 210).
\<close>

definition Initialize ::
  "Meshes \<Rightarrow> (nat \<Rightarrow> XMFLOAT4X4) \<Rightarrow> HRESULT \<Rightarrow> 'p ShapesApp \<Rightarrow> 'p ShapesApp outcome" where
  "Initialize g W hrCreate s =
     andThen (BuildShapeGeometry g s) (\<lambda>s1.
     andThen (BuildRenderItems W s1) (\<lambda>s2.
     andThen (BuildDescriptorHeaps hrCreate (BuildFrameResources s2))
       BuildConstantBufferViews))"


section \<open>The GPU side of the fence\<close>

text \<open>
  The GPU finishes the queued commands in order; finishing a \<open>Signal\<close> sets the fence to
  the signalled value.
\<close>

fun gpu_exec :: "QueueCmd \<Rightarrow> UINT64 \<Rightarrow> UINT64" where
  "gpu_exec (ExecuteCommandLists cl) completed = completed"
| "gpu_exec (Signal v) completed = v"

definition GpuProgress :: "'p ShapesApp \<Rightarrow> 'p ShapesApp" where
  "GpuProgress s =
     (if gpuExecuted s < length (mCommandQueue s)
      then s\<lparr>mFence := gpu_exec (mCommandQueue s ! gpuExecuted s) (mFence s),
             gpuExecuted := Suc (gpuExecuted s)\<rparr>
      else s)"

text \<open>
  \<^verbatim>\<open>SetEventOnCompletion(fence, event); WaitForSingleObject(event, INFINITE)\<close>: the calling
  thread sleeps while the GPU works through the commands still queued, and wakes up as
  soon as the fence has reached the value.  \<open>todo\<close> are the commands not yet finished,
  \<open>n\<close> the number of finished ones.  When the queue runs empty before the value is
  reached nothing will ever set the event, and the wait does not return: \<open>None\<close>.
\<close>

fun WaitForFence :: "UINT64 \<Rightarrow> QueueCmd list \<Rightarrow> nat \<Rightarrow> UINT64 \<Rightarrow> (nat \<times> UINT64) option" where
  "WaitForFence fence [] n completed = (if completed < fence then None else Some (n, completed))"
| "WaitForFence fence (c # todo) n completed =
     (if completed < fence then WaitForFence fence todo (Suc n) (gpu_exec c completed)
      else Some (n, completed))"


section \<open>The frame: Update and Draw\<close>

record 'p UpdateInput =
  keyState :: "16 word"
  hrSetEventOnCompletion :: HRESULT
  mainPassCB :: 'p

record DrawInput =
  hrAllocReset :: HRESULT
  hrCommandListReset :: HRESULT
  hrClose :: HRESULT
  hrPresent :: HRESULT
  hrSignal :: HRESULT

text \<open>
  What the native calls return is an input: the state of the key \<^verbatim>\<open>'1'\<close>, the return
  codes, and the pass constants, which \<^verbatim>\<open>UpdateMainPassCB\<close> computes in floating point
  from the camera, the window size and the timer.  \<^verbatim>\<open>UpdateCamera\<close> only recomputes the
  eye position and the view matrix from the three camera angles, in floating point; it
  changes no member kept here.
\<close>

definition OnKeyboardInput :: "16 word \<Rightarrow> 'p ShapesApp \<Rightarrow> 'p ShapesApp" where
  "OnKeyboardInput key s = s\<lparr>mIsWireframe := (key AND 0x8000 \<noteq> 0)\<rparr>"

text \<open>
  The loop of \<^verbatim>\<open>UpdateObjectCBs\<close> over \<open>mAllRitems\<close>, on the per-object buffer of the
  current frame resource.
\<close>

fun UpdateObjectCBs_loop ::
  "XMFLOAT4X4 option list \<Rightarrow> RenderItem list \<Rightarrow> (XMFLOAT4X4 option list \<times> RenderItem list) outcome" where
  "UpdateObjectCBs_loop cb [] = Returns (cb, [])"
| "UpdateObjectCBs_loop cb (e # es) =
     (if NumFramesDirty e > 0
      then andThen (CopyData cb (unat (ObjCBIndex e)) (XMMatrixTranspose (World e)))
             (\<lambda>cb1. andThen (UpdateObjectCBs_loop cb1 es)
                (\<lambda>r. Returns (fst r, e\<lparr>NumFramesDirty := NumFramesDirty e - 1\<rparr> # snd r)))
      else andThen (UpdateObjectCBs_loop cb es) (\<lambda>r. Returns (fst r, e # snd r)))"

definition UpdateObjectCBs :: "'p ShapesApp \<Rightarrow> 'p ShapesApp outcome" where
  "UpdateObjectCBs s =
     (case mCurrFrameResource s of
        None \<Rightarrow> Crash
      | Some p \<Rightarrow>
          if length (mFrameResources s) \<le> p then Crash
          else andThen (UpdateObjectCBs_loop (ObjectCB (mFrameResources s ! p)) (mAllRitems s))
                 (\<lambda>r. Returns
                    (s\<lparr>mFrameResources :=
                         (mFrameResources s)[p := (mFrameResources s ! p)\<lparr>ObjectCB := fst r\<rparr>],
                       mAllRitems := snd r\<rparr>)))"

definition UpdateMainPassCB :: "'p \<Rightarrow> 'p ShapesApp \<Rightarrow> 'p ShapesApp outcome" where
  "UpdateMainPassCB pc s =
     (case mCurrFrameResource s of
        None \<Rightarrow> Crash
      | Some p \<Rightarrow>
          if length (mFrameResources s) \<le> p then Crash
          else andThen (CopyData (PassCB (mFrameResources s ! p)) 0 pc)
                 (\<lambda>cb. Returns
                    (s\<lparr>mFrameResources :=
                         (mFrameResources s)[p := (mFrameResources s ! p)\<lparr>PassCB := cb\<rparr>]\<rparr>)))"

text \<open>
  \<^verbatim>\<open>Update\<close>, source lines 237 to 242: the keyboard, the camera, and the step to the next
  frame resource.  \<^verbatim>\<open>%\<close> is the remainder of the division that truncates.
\<close>

definition Update_advance :: "16 word \<Rightarrow> 'p ShapesApp \<Rightarrow> 'p ShapesApp outcome" where
  "Update_advance key s =
     (let s1 = OnKeyboardInput key s;
          i = (mCurrFrameResourceIndex s1 + 1) smod int gNumFrameResources
      in if i < 0 \<or> length (mFrameResources s1) \<le> nat i then Crash
         else Returns (s1\<lparr>mCurrFrameResourceIndex := i, mCurrFrameResource := Some (nat i)\<rparr>))"

text \<open>
  \<^verbatim>\<open>Update\<close>, source lines 247 to 256: wait for the GPU when the frame resource is still
  in use.
\<close>

definition Update_wait :: "HRESULT \<Rightarrow> 'p ShapesApp \<Rightarrow> 'p ShapesApp outcome" where
  "Update_wait hr s =
     (case mCurrFrameResource s of
        None \<Rightarrow> Crash
      | Some p \<Rightarrow>
          if length (mFrameResources s) \<le> p then Crash
          else if Fence (mFrameResources s ! p) \<noteq> 0 \<and> mFence s < Fence (mFrameResources s ! p)
          then andThen (ThrowIfFailed hr)
                 (\<lambda>u. case WaitForFence (Fence (mFrameResources s ! p))
                              (drop (gpuExecuted s) (mCommandQueue s)) (gpuExecuted s) (mFence s) of
                         None \<Rightarrow> Hangs
                       | Some g \<Rightarrow> Returns (s\<lparr>gpuExecuted := fst g, mFence := snd g\<rparr>))
          else Returns s)"

definition Update :: "'p UpdateInput \<Rightarrow> 'p ShapesApp \<Rightarrow> 'p ShapesApp outcome" where
  "Update u s =
     andThen (Update_advance (keyState u) s) (\<lambda>s1.
     andThen (Update_wait (hrSetEventOnCompletion u) s1) (\<lambda>s2.
     andThen (UpdateObjectCBs s2) (UpdateMainPassCB (mainPassCB u))))"

text \<open>
  \<^verbatim>\<open>DrawRenderItems\<close>: one draw call per render item, with the offset of the constant-buffer
  view bound for it (source line 1233).
\<close>

definition DrawRenderItems :: "'p ShapesApp \<Rightarrow> nat list \<Rightarrow> DrawCall list outcome" where
  "DrawRenderItems s ritems =
     (if mCurrFrameResource s = None then Crash
      else if list_ex (\<lambda>r. length (mAllRitems s) \<le> r \<or> Geo (mAllRitems s ! r) = None) ritems
      then Crash
      else Returns
        (map (\<lambda>r. let ri = mAllRitems s ! r in
                \<lparr>cbvIndex = word_of_int (mCurrFrameResourceIndex s)
                               * of_nat (length (mOpaqueRitems s)) + ObjCBIndex ri,
                 dcIndexCount = IndexCount ri,
                 dcStartIndexLocation = StartIndexLocation ri,
                 dcBaseVertexLocation = BaseVertexLocation ri\<rparr>)
           ritems))"

text \<open>
  \<^verbatim>\<open>Draw\<close>: the command list is recorded, closed and submitted, the frame is presented,
  and the fence is advanced and signalled (source lines 346 and 351).  The return code of
  \<^verbatim>\<open>mCommandQueue->Signal\<close> is not looked at.
\<close>

definition Draw :: "DrawInput \<Rightarrow> 'p ShapesApp \<Rightarrow> 'p ShapesApp outcome" where
  "Draw d s =
     (case mCurrFrameResource s of
        None \<Rightarrow> Crash
      | Some p \<Rightarrow>
          if length (mFrameResources s) \<le> p then Crash
          else
            andThen (ThrowIfFailed (hrAllocReset d)) (\<lambda>u1.
            andThen (ThrowIfFailed (hrCommandListReset d)) (\<lambda>u2.
            andThen (if mCbvHeap s = None then Crash else Returns ()) (\<lambda>u3.
            andThen (DrawRenderItems s (mOpaqueRitems s)) (\<lambda>dcs.
            andThen (ThrowIfFailed (hrClose d)) (\<lambda>u4.
            andThen (ThrowIfFailed (hrPresent d)) (\<lambda>u5.
              let cl = \<lparr>pso = (if mIsWireframe s then ''opaque_wireframe'' else ''opaque''),
                        passCbvIndex =
                          sint (mPassCbvOffset s + word_of_int (mCurrFrameResourceIndex s)),
                        draws = dcs\<rparr>;
                  fence = mCurrentFence s + 1
              in Returns
                   (s\<lparr>mCurrentFence := fence,
                      mFrameResources :=
                        (mFrameResources s)[p := (mFrameResources s ! p)\<lparr>Fence := fence\<rparr>],
                      mCommandQueue :=
                        mCommandQueue s @ [ExecuteCommandLists cl, Signal fence]\<rparr>))))))))"


section \<open>The mouse\<close>

text \<open>
  \<^verbatim>\<open>MK_LBUTTON\<close> and \<^verbatim>\<open>MK_RBUTTON\<close> are the values of the Windows headers, and
  \<^verbatim>\<open>XMConvertToRadians\<close> is \<^verbatim>\<open>fDegrees * (XM_PI / 180.0f)\<close> of DirectXMath.h.  Every
  literal with the suffix \<^verbatim>\<open>f\<close> is the \<^verbatim>\<open>float\<close> nearest to it, and every operation on
  \<^verbatim>\<open>float\<close>s rounds.  The difference of the two \<^verbatim>\<open>int\<close> coordinates wraps around like
  the machine subtraction.

  Modelled from the spec: \<^verbatim>\<open>MathHelper::Clamp\<close> and \<^verbatim>\<open>MathHelper::Pi\<close> (MathHelper.h,
  MathHelper.cpp) are not among the sources.  The source says at the two calls
  "Restrict the angle mPhi" and "Restrict the radius": the value is returned when it
  lies between the two bounds, and the bound it passed otherwise, decided by the two
  comparisons \<^verbatim>\<open>x < low\<close> and \<^verbatim>\<open>x > high\<close>.  \<^verbatim>\<open>MathHelper::Pi\<close> is the \<^verbatim>\<open>float\<close> constant
  \<^verbatim>\<open>3.1415926535f\<close>, which is also the \<^verbatim>\<open>float\<close> nearest to \<open>pi\<close>.
\<close>

definition MK_LBUTTON :: "64 word" where
  "MK_LBUTTON = 1"

definition MK_RBUTTON :: "64 word" where
  "MK_RBUTTON = 2"

definition MathHelper_Pi :: float where
  "MathHelper_Pi = round32 3.1415926535"

definition XMConvertToRadians :: "float \<Rightarrow> float" where
  "XMConvertToRadians fDegrees = fmul fDegrees (fdiv XM_PI (round32 180))"

definition Clamp :: "float \<Rightarrow> float \<Rightarrow> float \<Rightarrow> float" where
  "Clamp x low high = (if fless x low then low else if fless high x then high else x)"

definition OnMouseDown :: "64 word \<Rightarrow> INT32 \<Rightarrow> INT32 \<Rightarrow> 'p ShapesApp \<Rightarrow> 'p ShapesApp" where
  "OnMouseDown btnState x y s = s\<lparr>mLastMousePos := (x, y)\<rparr>"

definition OnMouseUp :: "64 word \<Rightarrow> INT32 \<Rightarrow> INT32 \<Rightarrow> 'p ShapesApp \<Rightarrow> 'p ShapesApp" where
  "OnMouseUp btnState x y s = s"

definition OnMouseMove :: "64 word \<Rightarrow> INT32 \<Rightarrow> INT32 \<Rightarrow> 'p ShapesApp \<Rightarrow> 'p ShapesApp" where
  "OnMouseMove btnState x y s =
     (let s1 =
        (if btnState AND MK_LBUTTON \<noteq> 0 then
           (let dx = XMConvertToRadians
                       (fmul (round32 0.25) (float_of_INT32 (x - fst (mLastMousePos s))));
                dy = XMConvertToRadians
                       (fmul (round32 0.25) (float_of_INT32 (y - snd (mLastMousePos s))));
                theta = fadd (mTheta s) dx;
                phi = fadd (mPhi s) dy
            in s\<lparr>mTheta := theta,
                 mPhi := Clamp phi (round32 0.1) (fsub MathHelper_Pi (round32 0.1))\<rparr>)
         else if btnState AND MK_RBUTTON \<noteq> 0 then
           (let dx = fmul (round32 0.005) (float_of_INT32 (x - fst (mLastMousePos s)));
                dy = fmul (round32 0.005) (float_of_INT32 (y - snd (mLastMousePos s)));
                radius = fadd (mRadius s) (fsub dx dy)
            in s\<lparr>mRadius := Clamp radius (round32 3) (round32 15)\<rparr>)
         else s)
      in s1\<lparr>mLastMousePos := (x, y)\<rparr>)"


section \<open>Runs of the application\<close>

text \<open>
  Modelled from the spec: the message loop of \<^verbatim>\<open>D3DApp\<close> that calls the entry points is
  not among the sources.  The spec: "Single CPU thread drives frame submission; the GPU
  executes asynchronously".  A run is any sequence of calls of the entry points, with the
  GPU finishing a queued command at any point between two calls; it ends at the first
  call that does not return.
\<close>

datatype 'p event =
    CallUpdate "'p UpdateInput"
  | CallDraw DrawInput
  | CallOnMouseDown "64 word" INT32 INT32
  | CallOnMouseUp "64 word" INT32 INT32
  | CallOnMouseMove "64 word" INT32 INT32
  | GpuFinishesCommand

fun step :: "'p event \<Rightarrow> 'p ShapesApp \<Rightarrow> 'p ShapesApp outcome" where
  "step (CallUpdate u) s = Update u s"
| "step (CallDraw d) s = Draw d s"
| "step (CallOnMouseDown b x y) s = Returns (OnMouseDown b x y s)"
| "step (CallOnMouseUp b x y) s = Returns (OnMouseUp b x y s)"
| "step (CallOnMouseMove b x y) s = Returns (OnMouseMove b x y s)"
| "step GpuFinishesCommand s = Returns (GpuProgress s)"

fun run :: "'p event list \<Rightarrow> 'p ShapesApp \<Rightarrow> 'p ShapesApp outcome" where
  "run [] s = Returns s"
| "run (e # es) s = andThen (step e s) (run es)"


section \<open>Auxiliary notions for the statements\<close>

text \<open>What one pass of \<^verbatim>\<open>UpdateObjectCBs\<close> does to the dirty counter of an item.\<close>

definition age :: "RenderItem \<Rightarrow> RenderItem" where
  "age e = (if 0 < NumFramesDirty e then e\<lparr>NumFramesDirty := NumFramesDirty e - 1\<rparr> else e)"

text \<open>The number of calls of \<^verbatim>\<open>Update\<close> in a run.\<close>

fun updates :: "'p event list \<Rightarrow> nat" where
  "updates [] = 0"
| "updates (CallUpdate u # es) = Suc (updates es)"
| "updates (e # es) = updates es"

text \<open>The index of the current frame resource is a position of the ring.\<close>

definition ring_inv :: "'p ShapesApp \<Rightarrow> bool" where
  "ring_inv s \<longleftrightarrow>
     0 \<le> mCurrFrameResourceIndex s \<and> mCurrFrameResourceIndex s < int gNumFrameResources"


section \<open>A small scene for concrete runs\<close>

text \<open>
  An application with a single render item, its three frame resources and its descriptor
  heap, and inputs on which every native call succeeds.
\<close>

definition one_item :: RenderItem where
  "one_item = RenderItem_default\<lparr>ObjCBIndex := 0, Geo := Some ''shapeGeo''\<rparr>"

definition one_item_app :: "unit ShapesApp" where
  "one_item_app =
     BuildFrameResources
       ((ShapesApp_new (0, 0) 0)
          \<lparr>mAllRitems := [one_item], mOpaqueRitems := [0], mPassCbvOffset := 3,
           mCbvHeap := Some (fold CreateConstantBufferView (objectViews 1 @ passViews 3)
                               \<lparr>NumDescriptors = 6, views = Map.empty\<rparr>)\<rparr>)"

definition ok_update :: "unit UpdateInput" where
  "ok_update = \<lparr>keyState = 0, hrSetEventOnCompletion = 0, mainPassCB = ()\<rparr>"

definition ok_draw :: DrawInput where
  "ok_draw = \<lparr>hrAllocReset = 0, hrCommandListReset = 0, hrClose = 0, hrPresent = 0, hrSignal = 0\<rparr>"

definition ok_frame :: "unit event list" where
  "ok_frame = [CallUpdate ok_update, CallDraw ok_draw]"


section \<open>Small meshes\<close>

text \<open>
  Well-formed meshes to run the scene construction on: a quad, a triangle, a square
  pyramid and an octahedron, each with its triangle list.
\<close>

definition quad :: MeshData where
  "quad = \<lparr>Vertices = [(0, 0, 0), (1, 0, 0), (1, 1, 0), (0, 1, 0)],
            Indices32 = [0, 1, 2, 0, 2, 3]\<rparr>"

definition triangle :: MeshData where
  "triangle = \<lparr>Vertices = [(0, 0, 0), (1, 0, 0), (0, 1, 0)], Indices32 = [0, 2, 1]\<rparr>"

definition square_pyramid :: MeshData where
  "square_pyramid =
     \<lparr>Vertices = [(- 1, 0, - 1), (1, 0, - 1), (1, 0, 1), (- 1, 0, 1), (0, 1, 0)],
      Indices32 = [0, 1, 4, 1, 2, 4, 2, 3, 4, 3, 0, 4, 0, 2, 1, 0, 3, 2]\<rparr>"

definition octahedron :: MeshData where
  "octahedron =
     \<lparr>Vertices = [(- 1, 0, - 1), (1, 0, - 1), (1, 0, 1), (- 1, 0, 1), (0, 1, 0), (0, - 1, 0)],
      Indices32 = [0, 1, 4, 1, 2, 4, 2, 3, 4, 3, 0, 4, 1, 0, 5, 2, 1, 5, 3, 2, 5, 0, 3, 5]\<rparr>"

definition small_meshes :: Meshes where
  "small_meshes =
     \<lparr>box = quad, door = quad, cylinder = quad, grid = quad, rooftop = triangle,
      cone = quad, wedge = quad, torus = quad, pyramid = square_pyramid,
      diamond = octahedron, diamond1 = octahedron\<rparr>"

text \<open>The scene transforms that leave every item where its mesh is.\<close>

definition identity_worlds :: "nat \<Rightarrow> XMFLOAT4X4" where
  "identity_worlds k = Identity4x4"

text \<open>
  A \<^verbatim>\<open>float\<close> that is a finite number between two bounds, and one that is a finite number
  of magnitude at most \<open>2 ^ k\<close>.
\<close>

fun in_range :: "float \<Rightarrow> real \<Rightarrow> real \<Rightarrow> bool" where
  "in_range (Finite a) low high = (low \<le> a \<and> a \<le> high)"
| "in_range (Infinity n) low high = False"
| "in_range NaN low high = False"

fun bounded_by :: "nat \<Rightarrow> float \<Rightarrow> bool" where
  "bounded_by k (Finite a) = (\<bar>a\<bar> \<le> 2 ^ k)"
| "bounded_by k (Infinity n) = False"
| "bounded_by k NaN = False"

text \<open>
  The bounds of the orbit camera: the \<^verbatim>\<open>float\<close>s \<^verbatim>\<open>0.1f\<close> and \<^verbatim>\<open>MathHelper::Pi - 0.1f\<close> for
  the polar angle, 3 and 15 for the radius.
\<close>

definition camera_inv :: "'p ShapesApp \<Rightarrow> bool" where
  "camera_inv s \<longleftrightarrow>
     in_range (mPhi s) (13421773 / 2 ^ 27) (12757365 / 2 ^ 22) \<and> in_range (mRadius s) 3 15"


text \<open>
  What holds of the scene in every state after the initialisation: the ring of three
  frame resources, constant buffers large enough for every render item, pairwise
  distinct constant-buffer indices, dirty counters between 0 and 3, and drawable items.
\<close>

definition scene_inv :: "'p ShapesApp \<Rightarrow> bool" where
  "scene_inv s \<longleftrightarrow>
     ring_inv s \<and> length (mFrameResources s) = gNumFrameResources \<and>
     (mCurrFrameResource s = None \<or>
      mCurrFrameResource s = Some (nat (mCurrFrameResourceIndex s))) \<and>
     distinct (map ObjCBIndex (mAllRitems s)) \<and>
     list_all (\<lambda>fr. PassCB fr \<noteq> [] \<and>
                 list_all (\<lambda>e. unat (ObjCBIndex e) < length (ObjectCB fr)) (mAllRitems s))
       (mFrameResources s) \<and>
     list_all (\<lambda>e. 0 \<le> NumFramesDirty e \<and> NumFramesDirty e \<le> int gNumFrameResources)
       (mAllRitems s) \<and>
     list_all (\<lambda>r. r < length (mAllRitems s) \<and> Geo (mAllRitems s ! r) \<noteq> None)
       (mOpaqueRitems s) \<and>
     mCbvHeap s \<noteq> None"

text \<open>The sizes of the two constant buffers of a frame resource.\<close>

definition cb_sizes :: "'p FrameResource \<Rightarrow> nat \<times> nat" where
  "cb_sizes fr = (length (PassCB fr), length (ObjectCB fr))"


text \<open>
  The per-object constant buffer of frame resource \<open>slot\<close> holds the transposed world
  matrix of the render item \<open>e\<close> at the item's constant-buffer index.
\<close>

definition written :: "'p ShapesApp \<Rightarrow> nat \<Rightarrow> RenderItem \<Rightarrow> bool" where
  "written s slot e \<longleftrightarrow>
     ObjectCB (mFrameResources s ! slot) ! unat (ObjCBIndex e) = Some (XMMatrixTranspose (World e))"

text \<open>
  How far the transform of the \<open>k\<close>-th render item has got: with the counter at 2 it is
  in the current frame resource, with the counter at 1 also in the one before, and with
  the counter at 0 in all three.
\<close>

definition dirty_inv :: "'p ShapesApp \<Rightarrow> nat \<Rightarrow> bool" where
  "dirty_inv s k \<longleftrightarrow>
     (let e = mAllRitems s ! k; i = nat (mCurrFrameResourceIndex s) in
        NumFramesDirty e = 3 \<or>
        NumFramesDirty e = 2 \<and> written s i e \<or>
        NumFramesDirty e = 1 \<and> written s i e \<and> written s ((i + 2) mod 3) e \<or>
        NumFramesDirty e = 0 \<and> written s 0 e \<and> written s 1 e \<and> written s 2 e)"


section \<open>Auxiliary notions for the fence\<close>

text \<open>The fence values signalled on the command queue, in the order of submission.\<close>

fun signals :: "QueueCmd list \<Rightarrow> UINT64 list" where
  "signals [] = []"
| "signals (Signal v # q) = v # signals q"
| "signals (ExecuteCommandLists cl # q) = signals q"

text \<open>The number of calls of \<^verbatim>\<open>Draw\<close> in a run.\<close>

fun draws_in :: "'p event list \<Rightarrow> nat" where
  "draws_in [] = 0"
| "draws_in (CallDraw d # es) = Suc (draws_in es)"
| "draws_in (e # es) = draws_in es"

text \<open>
  The signalled values are strictly increasing and none is above the CPU-side counter.
\<close>

definition fence_inv :: "'p ShapesApp \<Rightarrow> bool" where
  "fence_inv s \<longleftrightarrow>
     sorted_wrt (<) (signals (mCommandQueue s)) \<and>
     list_all (\<lambda>v. v \<le> mCurrentFence s) (signals (mCommandQueue s))"

text \<open>
  A \<^verbatim>\<open>Draw\<close> whose \<^verbatim>\<open>Signal\<close> fails with \<^verbatim>\<open>DXGI_ERROR_DEVICE_REMOVED\<close>, and one whose
  \<^verbatim>\<open>Present\<close> fails with it.
\<close>

definition signal_fails :: DrawInput where
  "signal_fails = ok_draw\<lparr>hrSignal := - 2005270523\<rparr>"

definition present_fails :: DrawInput where
  "present_fails = ok_draw\<lparr>hrPresent := - 2005270523\<rparr>"


section \<open>Basic facts about the operations\<close>

lemma upt_0_4: "[0..<4] = [0, 1, 2, 3]" by code_simp
lemma upt_0_2: "[0..<2] = [0, 1]" by code_simp
lemma upt_0_3: "[0..<3] = [0, 1, 2]" by code_simp

lemma andThen_Returns_iff [simp]:
  "(andThen m f = Returns y) = (\<exists>x. m = Returns x \<and> f x = Returns y)"
  by (cases m) auto

lemma ThrowIfFailed_Returns [simp]: "(ThrowIfFailed hr = Returns u) = (\<not> FAILED hr)"
  by (simp add: ThrowIfFailed_def)


lemma UpdateObjectCBs_loop_items:
  "UpdateObjectCBs_loop cb es = Returns r \<Longrightarrow> snd r = map age es \<and> length (fst r) = length cb"
proof (induction es arbitrary: cb r)
  case Nil
  then show ?case by auto
next
  case (Cons e es)
  then show ?case
    by (fastforce simp: age_def CopyData_def split: if_splits)
qed

lemma UpdateObjectCBs_Returns:
  assumes "UpdateObjectCBs s = Returns s'"
  shows "\<exists>p cb. mCurrFrameResource s = Some p \<and> p < length (mFrameResources s) \<and>
           length cb = length (ObjectCB (mFrameResources s ! p)) \<and>
           s' = s\<lparr>mFrameResources :=
                    (mFrameResources s)[p := (mFrameResources s ! p)\<lparr>ObjectCB := cb\<rparr>],
                  mAllRitems := map age (mAllRitems s)\<rparr>"
  using assms
  by (auto simp: UpdateObjectCBs_def split: option.splits if_splits
           dest!: UpdateObjectCBs_loop_items)

lemma UpdateMainPassCB_Returns:
  assumes "UpdateMainPassCB pc s = Returns s'"
  shows "\<exists>p cb. mCurrFrameResource s = Some p \<and> p < length (mFrameResources s) \<and>
           s' = s\<lparr>mFrameResources :=
                    (mFrameResources s)[p := (mFrameResources s ! p)\<lparr>PassCB := cb\<rparr>]\<rparr>"
  using assms
  by (auto simp: UpdateMainPassCB_def split: option.splits if_splits)

lemma Update_advance_Returns:
  assumes "Update_advance key s = Returns s'"
  shows "s' = s\<lparr>mIsWireframe := (key AND 0x8000 \<noteq> 0),
                 mCurrFrameResourceIndex := (mCurrFrameResourceIndex s + 1) smod 3,
                 mCurrFrameResource := Some (nat ((mCurrFrameResourceIndex s + 1) smod 3))\<rparr>
         \<and> 0 \<le> (mCurrFrameResourceIndex s + 1) smod 3
         \<and> nat ((mCurrFrameResourceIndex s + 1) smod 3) < length (mFrameResources s)"
  using assms
  by (auto simp: Update_advance_def OnKeyboardInput_def Let_def gNumFrameResources_def
           split: if_splits)


lemma WaitForFence_Some:
  "WaitForFence fence todo n c = Some r \<Longrightarrow>
     fence \<le> snd r \<and> n \<le> fst r \<and> fst r \<le> n + length todo \<and>
     snd r = fold gpu_exec (take (fst r - n) todo) c"
proof (induction todo arbitrary: n c)
  case Nil
  then show ?case by (auto split: if_splits)
next
  case (Cons x todo)
  show ?case
  proof (cases "c < fence")
    case True
    with Cons.prems have "WaitForFence fence todo (Suc n) (gpu_exec x c) = Some r" by simp
    from Cons.IH [OF this] show ?thesis
      by (auto simp: Suc_diff_le take_Cons' )
  next
    case False
    with Cons.prems show ?thesis by auto
  qed
qed

lemma Update_wait_Returns:
  assumes "Update_wait hr s = Returns s'"
  shows "\<exists>p. mCurrFrameResource s = Some p \<and> p < length (mFrameResources s) \<and>
           s' = s\<lparr>gpuExecuted := gpuExecuted s', mFence := mFence s'\<rparr> \<and>
           Fence (mFrameResources s ! p) \<le> mFence s' \<and>
           gpuExecuted s \<le> gpuExecuted s' \<and>
           mFence s' = fold gpu_exec
             (take (gpuExecuted s' - gpuExecuted s) (drop (gpuExecuted s) (mCommandQueue s))) (mFence s)"
proof -
  from assms obtain p where p: "mCurrFrameResource s = Some p" "p < length (mFrameResources s)"
    by (auto simp: Update_wait_def split: option.splits if_splits)
  let ?f = "Fence (mFrameResources s ! p)"
  show ?thesis
  proof (cases "?f \<noteq> 0 \<and> mFence s < ?f")
    case True
    with assms p obtain g where
      g: "WaitForFence ?f (drop (gpuExecuted s) (mCommandQueue s)) (gpuExecuted s) (mFence s) = Some g"
      and s': "s' = s\<lparr>gpuExecuted := fst g, mFence := snd g\<rparr>"
      by (auto simp: Update_wait_def split: option.splits)
    from WaitForFence_Some [OF g] s' p show ?thesis
      by auto
  next
    case False
    with assms p have "s' = s" by (auto simp: Update_wait_def)
    with False p show ?thesis by (auto simp: not_less)
  qed
qed

lemma map_update_nth:
  "(\<And>x. f (g x) = f x) \<Longrightarrow> map f (xs[p := g (xs ! p)]) = map f xs"
  by (cases "p < length xs") (auto simp: list_eq_iff_nth_eq nth_list_update)

lemma map_Fence_ObjectCB [simp]:
  "map Fence (frs[p := (frs ! p)\<lparr>ObjectCB := cb\<rparr>]) = map Fence frs"
  by (rule map_update_nth) simp

lemma map_Fence_PassCB [simp]:
  "map Fence (frs[p := (frs ! p)\<lparr>PassCB := cb\<rparr>]) = map Fence frs"
  by (rule map_update_nth) simp

lemma Update_Returns:
  assumes "Update u s = Returns s'"
  shows "mCurrFrameResourceIndex s' = (mCurrFrameResourceIndex s + 1) smod 3 \<and>
         0 \<le> mCurrFrameResourceIndex s' \<and>
         mCurrFrameResource s' = Some (nat (mCurrFrameResourceIndex s')) \<and>
         nat (mCurrFrameResourceIndex s') < length (mFrameResources s) \<and>
         length (mFrameResources s') = length (mFrameResources s) \<and>
         mAllRitems s' = map age (mAllRitems s) \<and>
         mOpaqueRitems s' = mOpaqueRitems s \<and> mCbvHeap s' = mCbvHeap s \<and>
         mPassCbvOffset s' = mPassCbvOffset s \<and>
         mTheta s' = mTheta s \<and> mPhi s' = mPhi s \<and> mRadius s' = mRadius s \<and>
         mCurrentFence s' = mCurrentFence s \<and> mCommandQueue s' = mCommandQueue s \<and>
         map Fence (mFrameResources s') = map Fence (mFrameResources s)"
proof -
  from assms obtain s1 s2 s3 where
    a: "Update_advance (keyState u) s = Returns s1" and
    w: "Update_wait (hrSetEventOnCompletion u) s1 = Returns s2" and
    o: "UpdateObjectCBs s2 = Returns s3" and
    m: "UpdateMainPassCB (mainPassCB u) s3 = Returns s'"
    by (auto simp: Update_def)
  note A = Update_advance_Returns [OF a]
  note W = Update_wait_Returns [OF w]
  note O = UpdateObjectCBs_Returns [OF o]
  note M = UpdateMainPassCB_Returns [OF m]
  from W obtain n c where s2: "s2 = s1\<lparr>gpuExecuted := n, mFence := c\<rparr>" by blast
  from O obtain p cb where s3: "s3 = s2\<lparr>mFrameResources :=
       (mFrameResources s2)[p := (mFrameResources s2 ! p)\<lparr>ObjectCB := cb\<rparr>],
       mAllRitems := map age (mAllRitems s2)\<rparr>" by blast
  from M obtain q cb' where s4: "s' = s3\<lparr>mFrameResources :=
       (mFrameResources s3)[q := (mFrameResources s3 ! q)\<lparr>PassCB := cb'\<rparr>]\<rparr>" by blast
  from A have s1: "s1 = s\<lparr>mIsWireframe := (keyState u AND 0x8000 \<noteq> 0),
                 mCurrFrameResourceIndex := (mCurrFrameResourceIndex s + 1) smod 3,
                 mCurrFrameResource := Some (nat ((mCurrFrameResourceIndex s + 1) smod 3))\<rparr>"
    by blast
  show ?thesis using A
    by (simp add: s4 s3 s2 s1)
qed


lemma Draw_Returns:
  assumes "Draw d s = Returns s'"
  shows "\<exists>p dcs. mCurrFrameResource s = Some p \<and> p < length (mFrameResources s) \<and>
           DrawRenderItems s (mOpaqueRitems s) = Returns dcs \<and>
           s' = s\<lparr>mCurrentFence := mCurrentFence s + 1,
                  mFrameResources :=
                    (mFrameResources s)[p := (mFrameResources s ! p)\<lparr>Fence := mCurrentFence s + 1\<rparr>],
                  mCommandQueue := mCommandQueue s @
                    [ExecuteCommandLists
                       \<lparr>pso = (if mIsWireframe s then ''opaque_wireframe'' else ''opaque''),
                        passCbvIndex = sint (mPassCbvOffset s + word_of_int (mCurrFrameResourceIndex s)),
                        draws = dcs\<rparr>,
                     Signal (mCurrentFence s + 1)]\<rparr>"
proof -
  from assms obtain p where p: "mCurrFrameResource s = Some p" "p < length (mFrameResources s)"
    by (cases "mCurrFrameResource s") (simp_all add: Draw_def split: if_splits)
  from assms p obtain dcs where "DrawRenderItems s (mOpaqueRitems s) = Returns dcs"
    and "s' = s\<lparr>mCurrentFence := mCurrentFence s + 1,
                  mFrameResources :=
                    (mFrameResources s)[p := (mFrameResources s ! p)\<lparr>Fence := mCurrentFence s + 1\<rparr>],
                  mCommandQueue := mCommandQueue s @
                    [ExecuteCommandLists
                       \<lparr>pso = (if mIsWireframe s then ''opaque_wireframe'' else ''opaque''),
                        passCbvIndex = sint (mPassCbvOffset s + word_of_int (mCurrFrameResourceIndex s)),
                        draws = dcs\<rparr>,
                     Signal (mCurrentFence s + 1)]\<rparr>"
    by (simp add: Draw_def Let_def) blast
  with p show ?thesis by blast
qed

lemma run_invariant:
  assumes "\<And>e s s'. P s \<Longrightarrow> step e s = Returns s' \<Longrightarrow> P s'"
    and "P s" and "run es s = Returns s'"
  shows "P s'"
  using assms(2,3)
proof (induction es arbitrary: s)
  case Nil
  then show ?case by simp
next
  case (Cons e es)
  then show ?case using assms(1) by auto
qed


lemma step_index:
  assumes "step e s = Returns s'" and "ring_inv s"
  shows "mCurrFrameResourceIndex s' = (mCurrFrameResourceIndex s + int (updates [e])) mod 3
         \<and> ring_inv s' \<and> length (mFrameResources s') = length (mFrameResources s)"
proof (cases e)
  case (CallUpdate u)
  with assms Update_Returns [of u s s'] show ?thesis
    by (simp add: ring_inv_def gNumFrameResources_def smod_mod_positive)
next
  case (CallDraw d)
  with assms Draw_Returns [of d s s'] show ?thesis
    by (auto simp: ring_inv_def gNumFrameResources_def)
next
  case (CallOnMouseDown b x y)
  with assms show ?thesis
    by (auto simp: ring_inv_def gNumFrameResources_def OnMouseDown_def)
next
  case (CallOnMouseUp b x y)
  with assms show ?thesis
    by (auto simp: ring_inv_def gNumFrameResources_def OnMouseUp_def)
next
  case (CallOnMouseMove b x y)
  with assms show ?thesis
    by (auto simp: ring_inv_def gNumFrameResources_def OnMouseMove_def Let_def)
next
  case GpuFinishesCommand
  with assms show ?thesis
    by (auto simp: ring_inv_def gNumFrameResources_def GpuProgress_def)
qed

lemma updates_Cons: "updates (e # es) = updates [e] + updates es"
  by (cases e) simp_all

lemma run_index:
  assumes "run es s = Returns s'" and "ring_inv s"
  shows "mCurrFrameResourceIndex s' = (mCurrFrameResourceIndex s + int (updates es)) mod 3
         \<and> ring_inv s' \<and> length (mFrameResources s') = length (mFrameResources s)"
  using assms
proof (induction es arbitrary: s)
  case Nil
  then show ?case by (simp add: ring_inv_def gNumFrameResources_def)
next
  case (Cons e es)
  from Cons.prems obtain s1 where s1: "step e s = Returns s1" and r: "run es s1 = Returns s'"
    by auto
  note S = step_index [OF s1 Cons.prems(2)]
  from Cons.IH [OF r] S
  have "mCurrFrameResourceIndex s' =
          ((mCurrFrameResourceIndex s + int (updates [e])) mod 3 + int (updates es)) mod 3"
    and "ring_inv s'" and "length (mFrameResources s') = length (mFrameResources s)"
    by simp_all
  then show ?case
    by (simp add: updates_Cons [of e es] mod_add_left_eq add.assoc)
qed

lemma BuildFrameResources_effect:
  "BuildFrameResources s =
     s\<lparr>mFrameResources := mFrameResources s
          @ replicate 3 (FrameResource_new 1 (of_nat (length (mAllRitems s))))\<rparr>"
  by (simp add: BuildFrameResources_def gNumFrameResources_def upt_0_3 numeral_3_eq_3)

text \<open>
  Claim C8.  \<^verbatim>\<open>BuildFrameResources\<close> creates exactly three frame resources, and no call
  of an entry point changes their number.  Every \<^verbatim>\<open>Update\<close> advances the index of the
  current frame resource by one modulo 3: over three consecutive frames (three stretches
  of a run with one \<^verbatim>\<open>Update\<close> each) the three slots are selected once each.
\<close>

theorem frame_resources_round_robin:
  assumes "ring_inv s"
    and "run f1 s = Returns s1" and "updates f1 = 1"
    and "run f2 s1 = Returns s2" and "updates f2 = 1"
    and "run f3 s2 = Returns s3" and "updates f3 = 1"
  shows "length (mFrameResources (BuildFrameResources (ShapesApp_new p f))) = 3
       \<and> mCurrFrameResourceIndex s1 = (mCurrFrameResourceIndex s + 1) mod 3
       \<and> mCurrFrameResourceIndex s2 = (mCurrFrameResourceIndex s1 + 1) mod 3
       \<and> mCurrFrameResourceIndex s3 = (mCurrFrameResourceIndex s2 + 1) mod 3
       \<and> distinct [mCurrFrameResourceIndex s1, mCurrFrameResourceIndex s2, mCurrFrameResourceIndex s3]
       \<and> set [mCurrFrameResourceIndex s1, mCurrFrameResourceIndex s2, mCurrFrameResourceIndex s3]
           = {0, 1, 2}
       \<and> length (mFrameResources s3) = length (mFrameResources s)"
proof -
  note R1 = run_index [OF assms(2) assms(1)]
  then have i1: "ring_inv s1" by simp
  note R2 = run_index [OF assms(4) i1]
  then have i2: "ring_inv s2" by simp
  note R3 = run_index [OF assms(6) i2]
  have n: "length (mFrameResources (BuildFrameResources (ShapesApp_new p f))) = 3"
    by (simp add: BuildFrameResources_effect ShapesApp_new_def)
  from assms(1) have b: "0 \<le> mCurrFrameResourceIndex s" "mCurrFrameResourceIndex s < 3"
    by (simp_all add: ring_inv_def gNumFrameResources_def)
  have e1: "mCurrFrameResourceIndex s1 = (mCurrFrameResourceIndex s + 1) mod 3"
    using R1 assms(3) by simp
  have e2: "mCurrFrameResourceIndex s2 = (mCurrFrameResourceIndex s1 + 1) mod 3"
    using R2 assms(5) by simp
  have e3: "mCurrFrameResourceIndex s3 = (mCurrFrameResourceIndex s2 + 1) mod 3"
    using R3 assms(7) by simp
  from b consider "mCurrFrameResourceIndex s = 0" | "mCurrFrameResourceIndex s = 1"
    | "mCurrFrameResourceIndex s = 2" by linarith
  then have d: "distinct [mCurrFrameResourceIndex s1, mCurrFrameResourceIndex s2, mCurrFrameResourceIndex s3]
       \<and> set [mCurrFrameResourceIndex s1, mCurrFrameResourceIndex s2, mCurrFrameResourceIndex s3]
           = {0, 1, 2}"
    by cases (auto simp: e1 e2 e3)
  have len: "length (mFrameResources s3) = length (mFrameResources s)"
    using R1 [THEN conjunct2, THEN conjunct2] R2 [THEN conjunct2, THEN conjunct2]
      R3 [THEN conjunct2, THEN conjunct2] by linarith
  from n e1 e2 e3 d len show ?thesis by blast
qed


section \<open>Concrete runs and the state after initialisation\<close>

lemmas model_defs =
  one_item_def one_item_app_def ok_update_def ok_draw_def ok_frame_def
  BuildFrameResources_effect ShapesApp_new_def FrameResource_new_def RenderItem_default_def
  Update_def Update_advance_def Update_wait_def UpdateObjectCBs_def UpdateMainPassCB_def
  OnKeyboardInput_def CopyData_def Draw_def DrawRenderItems_def ThrowIfFailed_def FAILED_def
  gNumFrameResources_def Let_def ring_inv_def GpuProgress_def
  OnMouseMove_def OnMouseDown_def OnMouseUp_def

lemma one_item_app_ring: "ring_inv one_item_app"
  by (simp add: model_defs)



lemmas eval_simps = model_defs numeral_3_eq_3 smod_mod_positive Identity4x4_def XMMatrixTranspose_def

lemma three_frames:
  "\<exists>s1. run ok_frame one_item_app = Returns s1 \<and>
     (\<exists>s2. run ok_frame s1 = Returns s2 \<and> (\<exists>s3. run ok_frame s2 = Returns s3))"
  by (simp add: eval_simps)

lemma ShapeGeometry_Returns:
  "ShapeGeometry g = Returns geo \<Longrightarrow>
     Name geo = ''shapeGeo'' \<and> length (Vertices (diamond1 g)) \<le> length (Vertices (diamond g))"
  by (auto simp: ShapeGeometry_def Let_def split: if_splits)

lemma ShapeGeometry_total:
  "length (Vertices (diamond1 g)) \<le> length (Vertices (diamond g)) \<Longrightarrow>
     \<exists>geo. ShapeGeometry g = Returns geo"
  by (simp add: ShapeGeometry_def Let_def)

lemma BuildRenderItems_Returns:
  assumes "BuildRenderItems W s = Returns s'" and "mAllRitems s = []"
  shows "s' = s\<lparr>mAllRitems := mAllRitems s', mOpaqueRitems := mOpaqueRitems s @ [0..<23]\<rparr>"
    and "length (mAllRitems s') = 23"
    and "map ObjCBIndex (mAllRitems s') =
           [4, 5, 6, 7, 0, 8, 1, 9, 2, 10, 3, 11, 12, 13, 14, 15, 16, 17, 18, 19, 20, 21, 22]"
    and "map NumFramesDirty (mAllRitems s') = replicate 23 3"
    and "map Geo (mAllRitems s') = replicate 23 (Some ''shapeGeo'')"
  using assms
  by (auto simp: BuildRenderItems_def pushIndexed_def pushTower_def newRitem_def
        RenderItem_default_def gNumFrameResources_def upt_0_4 upt_0_2 Let_def numeral_eq_Suc
        split: option.splits)

lemma BuildRenderItems_total:
  "mGeometries s ''shapeGeo'' = Some geo \<Longrightarrow> \<exists>s'. BuildRenderItems W s = Returns s'"
  by (simp add: BuildRenderItems_def Let_def)


lemma Initialize_Returns:
  assumes "Initialize g W hr (ShapesApp_new p f) = Returns s"
  shows "mCurrFrameResourceIndex s = 0" and "mCurrFrameResource s = None"
    and "mFrameResources s = replicate 3 (FrameResource_new 1 23)"
    and "length (mAllRitems s) = 23"
    and "map ObjCBIndex (mAllRitems s) =
           [4, 5, 6, 7, 0, 8, 1, 9, 2, 10, 3, 11, 12, 13, 14, 15, 16, 17, 18, 19, 20, 21, 22]"
    and "map NumFramesDirty (mAllRitems s) = replicate 23 3"
    and "map Geo (mAllRitems s) = replicate 23 (Some ''shapeGeo'')"
    and "mOpaqueRitems s = [0..<23]"
    and "mPassCbvOffset s = 69"
    and "mCbvHeap s = Some (fold CreateConstantBufferView (objectViews 23 @ passViews 69)
                              \<lparr>NumDescriptors = 72, views = Map.empty\<rparr>)"
    and "mTheta s = fmul (round32 1.5) XM_PI" and "mPhi s = fmul (round32 0.2) XM_PI"
    and "mRadius s = round32 15"
    and "mCurrentFence s = f" and "mFence s = f" and "mCommandQueue s = []"
    and "gpuExecuted s = 0"
proof -
  let ?s0 = "ShapesApp_new p f :: 'a ShapesApp"
  from assms obtain s1 s2 s3 where
    1: "BuildShapeGeometry g ?s0 = Returns s1" and
    2: "BuildRenderItems W s1 = Returns s2" and
    3: "BuildDescriptorHeaps hr (BuildFrameResources s2) = Returns s3" and
    4: "BuildConstantBufferViews s3 = Returns s"
    by (auto simp: Initialize_def)
  from 1 obtain geo where s1: "s1 = ?s0\<lparr>mGeometries := (mGeometries ?s0)(Name geo \<mapsto> geo)\<rparr>"
    by (auto simp: BuildShapeGeometry_def)
  then have e: "mAllRitems s1 = []" by (simp add: ShapesApp_new_def)
  note R = BuildRenderItems_Returns [OF 2 e]
  from 3 have s3: "s3 = (BuildFrameResources s2)
      \<lparr>mPassCbvOffset := of_nat (length (mOpaqueRitems s2)) * 3,
       mCbvHeap := Some \<lparr>NumDescriptors = (of_nat (length (mOpaqueRitems s2)) + 1) * 3,
                          views = Map.empty\<rparr>\<rparr>"
    by (auto simp: BuildDescriptorHeaps_def Let_def gNumFrameResources_def
          BuildFrameResources_effect)
  have o: "mOpaqueRitems s2 = [0..<23]"
    by (subst R(1)) (simp add: s1 ShapesApp_new_def)
  from 4 have s: "s = s3\<lparr>mCbvHeap :=
                 Some (fold CreateConstantBufferView
                         (objectViews (of_nat (length (mOpaqueRitems s3)))
                            @ passViews (mPassCbvOffset s3))
                         \<lparr>NumDescriptors = (of_nat (length (mOpaqueRitems s2)) + 1) * 3,
                          views = Map.empty\<rparr>)\<rparr>"
    by (auto simp: BuildConstantBufferViews_def s3 split: option.splits if_splits)
  have rest: "mCurrFrameResourceIndex s2 = 0" "mCurrFrameResource s2 = None"
    "mFrameResources s2 = []" "mTheta s2 = fmul (round32 1.5) XM_PI" "mPhi s2 = fmul (round32 0.2) XM_PI"
    "mRadius s2 = round32 15"
    "mCurrentFence s2 = f" "mFence s2 = f" "mCommandQueue s2 = []" "gpuExecuted s2 = 0"
    by (subst R(1), simp add: s1 ShapesApp_new_def)+
  show "mCurrFrameResourceIndex s = 0" and "mCurrFrameResource s = None"
    and "mTheta s = fmul (round32 1.5) XM_PI" and "mPhi s = fmul (round32 0.2) XM_PI"
    and "mRadius s = round32 15"
    and "mCurrentFence s = f" and "mFence s = f" and "mCommandQueue s = []"
    and "gpuExecuted s = 0"
    by (simp_all add: s s3 BuildFrameResources_effect rest)
  show "mFrameResources s = replicate 3 (FrameResource_new 1 23)"
    by (simp add: s s3 BuildFrameResources_effect rest R(2))
  show "length (mAllRitems s) = 23"
    and "map ObjCBIndex (mAllRitems s) =
           [4, 5, 6, 7, 0, 8, 1, 9, 2, 10, 3, 11, 12, 13, 14, 15, 16, 17, 18, 19, 20, 21, 22]"
    and "map NumFramesDirty (mAllRitems s) = replicate 23 3"
    and "map Geo (mAllRitems s) = replicate 23 (Some ''shapeGeo'')"
    using R(2-5) by (simp_all add: s s3 BuildFrameResources_effect)
  show "mOpaqueRitems s = [0..<23]"
    by (simp add: s s3 BuildFrameResources_effect o)
  show "mPassCbvOffset s = 69"
    by (simp add: s s3 BuildFrameResources_effect o)
  show "mCbvHeap s = Some (fold CreateConstantBufferView (objectViews 23 @ passViews 69)
                              \<lparr>NumDescriptors = 72, views = Map.empty\<rparr>)"
    by (simp add: s s3 BuildFrameResources_effect o)
qed

lemma Initialize_total:
  assumes "length (Vertices (diamond1 g)) \<le> length (Vertices (diamond g))" and "\<not> FAILED hr"
  shows "\<exists>s. Initialize g W hr s0 = Returns s"
proof -
  from ShapeGeometry_total [OF assms(1)] obtain geo where geo: "ShapeGeometry g = Returns geo" ..
  with ShapeGeometry_Returns [OF geo]
  have 1: "BuildShapeGeometry g s0 = Returns (s0\<lparr>mGeometries := (mGeometries s0)(''shapeGeo'' \<mapsto> geo)\<rparr>)"
    by (simp add: BuildShapeGeometry_def)
  obtain s2 where 2: "BuildRenderItems W (s0\<lparr>mGeometries := (mGeometries s0)(''shapeGeo'' \<mapsto> geo)\<rparr>) = Returns s2"
    using BuildRenderItems_total [of "s0\<lparr>mGeometries := (mGeometries s0)(''shapeGeo'' \<mapsto> geo)\<rparr>" geo W]
    by auto
  show ?thesis
    using assms(2)
    by (simp add: Initialize_def 1 2 BuildDescriptorHeaps_def BuildConstantBufferViews_def
          BuildFrameResources_effect Let_def gNumFrameResources_def)
qed

theorem frame_resources_round_robin_witness:
  "\<exists>s1 s2 s3. ring_inv one_item_app \<and> updates ok_frame = 1 \<and>
     run ok_frame one_item_app = Returns s1 \<and> run ok_frame s1 = Returns s2 \<and>
     run ok_frame s2 = Returns s3 \<and>
     mCurrFrameResourceIndex s1 = 1 \<and> mCurrFrameResourceIndex s2 = 2 \<and>
     mCurrFrameResourceIndex s3 = 0 \<and> length (mFrameResources s3) = 3"
proof -
  from three_frames obtain s1 s2 s3 where
    r: "run ok_frame one_item_app = Returns s1" "run ok_frame s1 = Returns s2"
       "run ok_frame s2 = Returns s3"
    by blast
  have u: "updates ok_frame = 1" by (simp add: ok_frame_def)
  have i: "mCurrFrameResourceIndex one_item_app = 0" "length (mFrameResources one_item_app) = 3"
    by (simp_all add: model_defs)
  from frame_resources_round_robin
         [OF one_item_app_ring r(1) u r(2) u r(3) u, THEN conjunct2] i
  have "mCurrFrameResourceIndex s1 = 1 \<and> mCurrFrameResourceIndex s2 = 2 \<and>
     mCurrFrameResourceIndex s3 = 0 \<and> length (mFrameResources s3) = 3"
    by simp
  with one_item_app_ring u r show ?thesis by blast
qed


lemma small_meshes_total:
  "\<exists>s. Initialize small_meshes W 0 s0 = Returns s"
  by (rule Initialize_total) (simp_all add: small_meshes_def octahedron_def FAILED_def)

section \<open>Dirty counters\<close>

lemma age_simps [simp]:
  "World (age e) = World e" "ObjCBIndex (age e) = ObjCBIndex e" "Geo (age e) = Geo e"
  "IndexCount (age e) = IndexCount e" "StartIndexLocation (age e) = StartIndexLocation e"
  "BaseVertexLocation (age e) = BaseVertexLocation e"
  "NumFramesDirty (age e) = (if 0 < NumFramesDirty e then NumFramesDirty e - 1 else NumFramesDirty e)"
  by (simp_all add: age_def)

lemma age_pow_simps [simp]:
  "World ((age ^^ k) e) = World e" "ObjCBIndex ((age ^^ k) e) = ObjCBIndex e"
  "Geo ((age ^^ k) e) = Geo e"
  by (induction k) simp_all

lemma age_pow_dirty:
  "NumFramesDirty ((age ^^ k) e) =
     (if NumFramesDirty e \<le> 0 then NumFramesDirty e else max 0 (NumFramesDirty e - int k))"
  by (induction k) auto

lemma step_items:
  assumes "step e s = Returns s'"
  shows "mAllRitems s' = map (age ^^ updates [e]) (mAllRitems s)"
proof (cases e)
  case (CallUpdate u)
  with assms Update_Returns [of u s s'] show ?thesis by simp
next
  case (CallDraw d)
  with assms Draw_Returns [of d s s'] show ?thesis by auto
next
  case (CallOnMouseDown b x y)
  with assms show ?thesis by (auto simp: OnMouseDown_def)
next
  case (CallOnMouseUp b x y)
  with assms show ?thesis by (auto simp: OnMouseUp_def)
next
  case (CallOnMouseMove b x y)
  with assms show ?thesis by (auto simp: OnMouseMove_def Let_def)
next
  case GpuFinishesCommand
  with assms show ?thesis by (auto simp: GpuProgress_def)
qed

lemma run_items:
  assumes "run es s = Returns s'"
  shows "mAllRitems s' = map (age ^^ updates es) (mAllRitems s)"
  using assms
proof (induction es arbitrary: s)
  case Nil
  then show ?case by simp
next
  case (Cons e es)
  from Cons.prems obtain s1 where s1: "step e s = Returns s1" and r: "run es s1 = Returns s'"
    by auto
  have "age ^^ updates es \<circ> age ^^ updates [e] = age ^^ updates (e # es)"
    by (simp add: updates_Cons [of e es] funpow_add [symmetric] add.commute)
  with Cons.IH [OF r] step_items [OF s1] show ?case
    by simp
qed

section \<open>The per-object constant buffer\<close>

lemma UpdateObjectCBs_loop_total:
  "list_all (\<lambda>e. unat (ObjCBIndex e) < length cb) es \<Longrightarrow>
     \<exists>r. UpdateObjectCBs_loop cb es = Returns r"
proof (induction es arbitrary: cb)
  case Nil
  then show ?case by simp
next
  case (Cons e es)
  from Cons.prems have 1: "list_all (\<lambda>e. unat (ObjCBIndex e) < length cb) es"
    and 2: "unat (ObjCBIndex e) < length cb" by simp_all
  from Cons.IH [OF 1] obtain r where r: "UpdateObjectCBs_loop cb es = Returns r" ..
  from 1 have "list_all (\<lambda>e'. unat (ObjCBIndex e') <
      length (cb[unat (ObjCBIndex e) := Some (XMMatrixTranspose (World e))])) es"
    by simp
  from Cons.IH [OF this] obtain r' where
    r': "UpdateObjectCBs_loop (cb[unat (ObjCBIndex e) := Some (XMMatrixTranspose (World e))]) es
           = Returns r'" ..
  show ?case using r r' 2 by (simp add: CopyData_def)
qed

lemma UpdateObjectCBs_loop_untouched:
  assumes "UpdateObjectCBs_loop cb es = Returns r"
    and "list_all (\<lambda>e. 0 < NumFramesDirty e \<longrightarrow> unat (ObjCBIndex e) \<noteq> i) es"
  shows "fst r ! i = cb ! i"
  using assms
proof (induction es arbitrary: cb r)
  case Nil
  then show ?case by auto
next
  case (Cons e es)
  show ?case
  proof (cases "0 < NumFramesDirty e")
    case True
    with Cons.prems(1) obtain r' where
      r': "UpdateObjectCBs_loop (cb[unat (ObjCBIndex e) := Some (XMMatrixTranspose (World e))]) es
             = Returns r'" and f: "fst r = fst r'"
      by (auto simp: CopyData_def split: if_splits)
    from Cons.prems(2) True have n: "unat (ObjCBIndex e) \<noteq> i"
      and t: "list_all (\<lambda>e. 0 < NumFramesDirty e \<longrightarrow> unat (ObjCBIndex e) \<noteq> i) es" by simp_all
    from Cons.IH [OF r' t] n f show ?thesis by simp
  next
    case False
    with Cons.prems(1) obtain r' where
      r': "UpdateObjectCBs_loop cb es = Returns r'" and f: "fst r = fst r'"
      by auto
    from Cons.prems(2) have
      t: "list_all (\<lambda>e. 0 < NumFramesDirty e \<longrightarrow> unat (ObjCBIndex e) \<noteq> i) es" by simp
    from Cons.IH [OF r' t] f show ?thesis by simp
  qed
qed

lemma UpdateObjectCBs_loop_written:
  assumes "UpdateObjectCBs_loop cb es = Returns r"
    and "distinct (map ObjCBIndex es)" and "e \<in> set es" and "0 < NumFramesDirty e"
  shows "fst r ! unat (ObjCBIndex e) = Some (XMMatrixTranspose (World e))"
  using assms
proof (induction es arbitrary: cb r)
  case Nil
  then show ?case by simp
next
  case (Cons x es)
  show ?case
  proof (cases "e = x")
    case True
    with Cons.prems(1,4) obtain r' where
      r': "UpdateObjectCBs_loop (cb[unat (ObjCBIndex e) := Some (XMMatrixTranspose (World e))]) es
             = Returns r'" and f: "fst r = fst r'" and l: "unat (ObjCBIndex e) < length cb"
      by (auto simp: CopyData_def split: if_splits)
    have "unat (ObjCBIndex y) \<noteq> unat (ObjCBIndex e)" if "y \<in> set es" for y
    proof
      assume "unat (ObjCBIndex y) = unat (ObjCBIndex e)"
      with that have "ObjCBIndex e \<in> ObjCBIndex ` set es"
        by (metis word_unat_eq_iff imageI)
      with Cons.prems(2) True show False by simp
    qed
    then have "list_all (\<lambda>y. 0 < NumFramesDirty y \<longrightarrow> unat (ObjCBIndex y) \<noteq> unat (ObjCBIndex e)) es"
      by (simp add: list_all_iff)
    from UpdateObjectCBs_loop_untouched [OF r' this] f l show ?thesis by simp
  next
    case False
    with Cons.prems(3) have m: "e \<in> set es" by simp
    from Cons.prems(2) have d: "distinct (map ObjCBIndex es)" by simp
    from Cons.prems(1) obtain cb' r' where
      r': "UpdateObjectCBs_loop cb' es = Returns r'" and f: "fst r = fst r'"
      by (auto split: if_splits)
    from Cons.IH [OF r' d m Cons.prems(4)] f show ?thesis by simp
  qed
qed

lemma UpdateObjectCBs_Returns_loop:
  assumes "UpdateObjectCBs s = Returns s'"
  shows "\<exists>p r. mCurrFrameResource s = Some p \<and> p < length (mFrameResources s) \<and>
           UpdateObjectCBs_loop (ObjectCB (mFrameResources s ! p)) (mAllRitems s) = Returns r \<and>
           s' = s\<lparr>mFrameResources :=
                    (mFrameResources s)[p := (mFrameResources s ! p)\<lparr>ObjectCB := fst r\<rparr>],
                  mAllRitems := snd r\<rparr>"
  using assms
  by (auto simp: UpdateObjectCBs_def split: option.splits if_splits)

lemma UpdateMainPassCB_Returns_cb:
  assumes "UpdateMainPassCB pc s = Returns s'"
  shows "\<exists>p. mCurrFrameResource s = Some p \<and> p < length (mFrameResources s) \<and>
           PassCB (mFrameResources s ! p) \<noteq> [] \<and>
           s' = s\<lparr>mFrameResources := (mFrameResources s)
                    [p := (mFrameResources s ! p)\<lparr>PassCB := (PassCB (mFrameResources s ! p))[0 := Some pc]\<rparr>]\<rparr>"
  using assms
  by (auto simp: UpdateMainPassCB_def CopyData_def split: option.splits if_splits)


section \<open>The scene invariant\<close>

lemma scene_inv_sizes:
  "list_all (\<lambda>fr. PassCB fr \<noteq> [] \<and>
              list_all (\<lambda>e. unat (ObjCBIndex e) < length (ObjectCB fr)) es) frs
   \<longleftrightarrow> list_all (\<lambda>z. fst z \<noteq> 0 \<and> list_all (\<lambda>i. unat i < snd z) (map ObjCBIndex es))
         (map cb_sizes frs)"
  by (simp add: list_all_iff cb_sizes_def)

lemma ObjCBIndex_age [simp]: "ObjCBIndex \<circ> age = ObjCBIndex"
  by (rule ext) simp

lemma ObjCBIndex_age_pow [simp]: "ObjCBIndex \<circ> age ^^ k = ObjCBIndex"
  by (rule ext) simp

lemma Update_sizes:
  assumes "Update u s = Returns s'"
  shows "map cb_sizes (mFrameResources s') = map cb_sizes (mFrameResources s)"
proof -
  from assms obtain s1 s2 s3 where
    a: "Update_advance (keyState u) s = Returns s1" and
    w: "Update_wait (hrSetEventOnCompletion u) s1 = Returns s2" and
    o: "UpdateObjectCBs s2 = Returns s3" and
    m: "UpdateMainPassCB (mainPassCB u) s3 = Returns s'"
    by (auto simp: Update_def)
  from Update_advance_Returns [OF a] have 1: "mFrameResources s1 = mFrameResources s"
    by (metis (no_types, lifting) ShapesApp.select_convs(1) ShapesApp.surjective
        ShapesApp.update_convs(2,3,9))
  from Update_wait_Returns [OF w] have 2: "mFrameResources s2 = mFrameResources s1"
    by (metis (no_types, lifting) ShapesApp.select_convs(1) ShapesApp.surjective
        ShapesApp.update_convs(16,17))
  from UpdateObjectCBs_Returns [OF o] obtain p cb where
    p: "p < length (mFrameResources s2)" "length cb = length (ObjectCB (mFrameResources s2 ! p))"
    and 3: "mFrameResources s3 = (mFrameResources s2)[p := (mFrameResources s2 ! p)\<lparr>ObjectCB := cb\<rparr>]"
    by auto
  from UpdateMainPassCB_Returns_cb [OF m] obtain q where
    4: "mFrameResources s' = (mFrameResources s3)
          [q := (mFrameResources s3 ! q)\<lparr>PassCB := (PassCB (mFrameResources s3 ! q))[0 := Some (mainPassCB u)]\<rparr>]"
    by auto
  have "map cb_sizes (mFrameResources s3) = map cb_sizes (mFrameResources s2)"
    unfolding 3 using p
    by (auto simp: list_eq_iff_nth_eq nth_list_update cb_sizes_def)
  moreover have "map cb_sizes (mFrameResources s') = map cb_sizes (mFrameResources s3)"
    unfolding 4 by (rule map_update_nth) (simp add: cb_sizes_def)
  ultimately show ?thesis by (simp add: 1 2)
qed


lemma Draw_sizes:
  assumes "Draw d s = Returns s'"
  shows "map cb_sizes (mFrameResources s') = map cb_sizes (mFrameResources s)"
proof -
  from Draw_Returns [OF assms] obtain p where
    "mFrameResources s' =
       (mFrameResources s)[p := (mFrameResources s ! p)\<lparr>Fence := mCurrentFence s + 1\<rparr>]"
    by auto
  then show ?thesis
    by (simp only:) (rule map_update_nth, simp add: cb_sizes_def)
qed

lemma OnMouseMove_fields [simp]:
  "mFrameResources (OnMouseMove b x y s) = mFrameResources s"
  "mCurrFrameResource (OnMouseMove b x y s) = mCurrFrameResource s"
  "mCurrFrameResourceIndex (OnMouseMove b x y s) = mCurrFrameResourceIndex s"
  "mCbvHeap (OnMouseMove b x y s) = mCbvHeap s"
  "mAllRitems (OnMouseMove b x y s) = mAllRitems s"
  "mOpaqueRitems (OnMouseMove b x y s) = mOpaqueRitems s"
  "mPassCbvOffset (OnMouseMove b x y s) = mPassCbvOffset s"
  "mCurrentFence (OnMouseMove b x y s) = mCurrentFence s"
  "mCommandQueue (OnMouseMove b x y s) = mCommandQueue s"
  "gpuExecuted (OnMouseMove b x y s) = gpuExecuted s"
  "mFence (OnMouseMove b x y s) = mFence s"
  by (simp_all add: OnMouseMove_def Let_def)

lemma OnMouseDown_fields [simp]:
  "mFrameResources (OnMouseDown b x y s) = mFrameResources s"
  "mCurrFrameResource (OnMouseDown b x y s) = mCurrFrameResource s"
  "mCurrFrameResourceIndex (OnMouseDown b x y s) = mCurrFrameResourceIndex s"
  "mCbvHeap (OnMouseDown b x y s) = mCbvHeap s"
  "mAllRitems (OnMouseDown b x y s) = mAllRitems s"
  "mOpaqueRitems (OnMouseDown b x y s) = mOpaqueRitems s"
  "mPassCbvOffset (OnMouseDown b x y s) = mPassCbvOffset s"
  "mCurrentFence (OnMouseDown b x y s) = mCurrentFence s"
  "mCommandQueue (OnMouseDown b x y s) = mCommandQueue s"
  "gpuExecuted (OnMouseDown b x y s) = gpuExecuted s"
  "mFence (OnMouseDown b x y s) = mFence s"
  by (simp_all add: OnMouseDown_def)

lemma GpuProgress_fields [simp]:
  "mFrameResources (GpuProgress s) = mFrameResources s"
  "mCurrFrameResource (GpuProgress s) = mCurrFrameResource s"
  "mCurrFrameResourceIndex (GpuProgress s) = mCurrFrameResourceIndex s"
  "mCbvHeap (GpuProgress s) = mCbvHeap s"
  "mAllRitems (GpuProgress s) = mAllRitems s"
  "mOpaqueRitems (GpuProgress s) = mOpaqueRitems s"
  "mPassCbvOffset (GpuProgress s) = mPassCbvOffset s"
  "mCurrentFence (GpuProgress s) = mCurrentFence s"
  "mCommandQueue (GpuProgress s) = mCommandQueue s"
  by (simp_all add: GpuProgress_def)

lemma Initialize_scene_inv:
  assumes "Initialize g W hr (ShapesApp_new p f) = Returns s"
  shows "scene_inv s"
proof -
  note I = Initialize_Returns [OF assms]
  have 1: "ring_inv s" by (simp add: ring_inv_def I(1) gNumFrameResources_def)
  have 2: "length (mFrameResources s) = gNumFrameResources"
    by (simp add: I(3) gNumFrameResources_def)
  have 3: "distinct (map ObjCBIndex (mAllRitems s))" by (simp add: I(5))
  have "list_all (\<lambda>i. unat i < 23) (map ObjCBIndex (mAllRitems s))"
    by (simp add: I(5))
  then have "list_all (\<lambda>e. unat (ObjCBIndex e) < 23) (mAllRitems s)"
    by (simp add: list_all_iff)
  then have 4: "list_all (\<lambda>fr. PassCB fr \<noteq> [] \<and>
                 list_all (\<lambda>e. unat (ObjCBIndex e) < length (ObjectCB fr)) (mAllRitems s))
       (mFrameResources s)"
    by (simp add: I(3) FrameResource_new_def list_all_iff)
  have "set (map NumFramesDirty (mAllRitems s)) \<subseteq> {3}" by (simp add: I(6))
  then have 5: "list_all (\<lambda>e. 0 \<le> NumFramesDirty e \<and> NumFramesDirty e \<le> int gNumFrameResources)
       (mAllRitems s)"
    by (auto simp: list_all_iff gNumFrameResources_def)
  have "Geo (mAllRitems s ! r) = Some ''shapeGeo''" if "r < 23" for r
  proof -
    from that have "Geo (mAllRitems s ! r) = map Geo (mAllRitems s) ! r" by (simp add: I(4))
    with that show ?thesis by (simp add: I(7))
  qed
  then have 6: "list_all (\<lambda>r. r < length (mAllRitems s) \<and> Geo (mAllRitems s ! r) \<noteq> None)
       (mOpaqueRitems s)"
    by (simp add: list_all_iff I(4,8))
  from 1 2 3 4 5 6 show ?thesis
    by (simp add: scene_inv_def I(2,10))
qed

lemma step_scene_inv:
  assumes "scene_inv s" and "step e s = Returns s'"
  shows "scene_inv s'"
proof (cases e)
  case (CallUpdate u)
  with assms have U: "Update u s = Returns s'" by simp
  note R = Update_Returns [OF U] and S = Update_sizes [OF U]
  note i = step_index [OF assms(2)]
  from assms(1) have "list_all (\<lambda>z. fst z \<noteq> 0 \<and> list_all (\<lambda>i. unat i < snd z) (map ObjCBIndex (mAllRitems s')))
         (map cb_sizes (mFrameResources s'))"
    by (simp add: scene_inv_def scene_inv_sizes S R)
  moreover from assms(1) have "list_all (\<lambda>e. 0 \<le> NumFramesDirty e \<and> NumFramesDirty e \<le> int gNumFrameResources)
       (mAllRitems s')"
    by (auto simp: scene_inv_def R list_all_iff)
  moreover from assms(1) have "list_all (\<lambda>r. r < length (mAllRitems s') \<and> Geo (mAllRitems s' ! r) \<noteq> None)
       (mOpaqueRitems s')"
    by (auto simp: scene_inv_def R list_all_iff)
  ultimately show ?thesis using assms(1) i R
    by (simp add: scene_inv_def scene_inv_sizes)
next
  case (CallDraw d)
  with assms have D: "Draw d s = Returns s'" by simp
  note S = Draw_sizes [OF D]
  note i = step_index [OF assms(2)]
  from Draw_Returns [OF D] obtain p dcs cl where
    s': "s' = s\<lparr>mCurrentFence := mCurrentFence s + 1,
                  mFrameResources :=
                    (mFrameResources s)[p := (mFrameResources s ! p)\<lparr>Fence := mCurrentFence s + 1\<rparr>],
                  mCommandQueue := mCommandQueue s @ [ExecuteCommandLists cl, Signal (mCurrentFence s + 1)]\<rparr>"
    by blast
  have f: "mCurrFrameResource s' = mCurrFrameResource s" "mCurrFrameResourceIndex s' = mCurrFrameResourceIndex s"
    "mAllRitems s' = mAllRitems s" "mOpaqueRitems s' = mOpaqueRitems s" "mCbvHeap s' = mCbvHeap s"
    by (simp_all add: s')
  from assms(1) i show ?thesis
    by (simp add: scene_inv_def scene_inv_sizes S f)
next
  case (CallOnMouseDown b x y)
  with assms show ?thesis
    by (auto simp: scene_inv_def ring_inv_def)
next
  case (CallOnMouseUp b x y)
  with assms show ?thesis by (auto simp: OnMouseUp_def)
next
  case (CallOnMouseMove b x y)
  with assms show ?thesis
    by (auto simp: scene_inv_def ring_inv_def)
next
  case GpuFinishesCommand
  with assms show ?thesis
    by (auto simp: scene_inv_def ring_inv_def)
qed

lemma run_scene_inv:
  assumes "run es s = Returns s'" and "scene_inv s"
  shows "scene_inv s'"
  by (rule run_invariant [where P = scene_inv, OF step_scene_inv assms(2) assms(1)])


section \<open>Calls that return\<close>

lemma WaitForFence_total:
  "Signal fence \<in> set todo \<Longrightarrow> \<exists>r. WaitForFence fence todo n c = Some r"
proof (induction todo arbitrary: n c)
  case Nil
  then show ?case by simp
next
  case (Cons x todo)
  show ?case
  proof (cases "x = Signal fence")
    case True
    then show ?thesis by (cases todo) auto
  next
    case False
    with Cons.prems have "Signal fence \<in> set todo" by simp
    from Cons.IH [OF this] show ?thesis by auto
  qed
qed

lemma Update_total:
  assumes "scene_inv s"
    and "Fence (mFrameResources s ! nat ((mCurrFrameResourceIndex s + 1) mod 3)) = 0 \<or>
         Fence (mFrameResources s ! nat ((mCurrFrameResourceIndex s + 1) mod 3)) \<le> mFence s \<or>
         0 \<le> hrSetEventOnCompletion u \<and>
         Signal (Fence (mFrameResources s ! nat ((mCurrFrameResourceIndex s + 1) mod 3)))
           \<in> set (drop (gpuExecuted s) (mCommandQueue s))"
  shows "\<exists>s'. Update u s = Returns s'"
proof -
  let ?i = "(mCurrFrameResourceIndex s + 1) mod 3"
  let ?p = "nat ?i"
  let ?s1 = "s\<lparr>mIsWireframe := (keyState u AND 0x8000 \<noteq> 0),
                mCurrFrameResourceIndex := ?i, mCurrFrameResource := Some ?p\<rparr>"
  from assms(1) have b: "0 \<le> mCurrFrameResourceIndex s" "length (mFrameResources s) = 3"
    by (simp_all add: scene_inv_def ring_inv_def gNumFrameResources_def)
  have m: "0 \<le> ?i" "?i < 3" by simp_all
  with b have p: "?p < length (mFrameResources s)" by linarith
  from b m p have a: "Update_advance (keyState u) s = Returns ?s1"
    by (simp add: Update_advance_def OnKeyboardInput_def Let_def gNumFrameResources_def
          smod_mod_positive not_le)
  have "\<exists>s2. Update_wait (hrSetEventOnCompletion u) ?s1 = Returns s2"
  proof (cases "Fence (mFrameResources s ! ?p) \<noteq> 0 \<and> mFence s < Fence (mFrameResources s ! ?p)")
    case True
    with assms(2) have h: "0 \<le> hrSetEventOnCompletion u"
      and "Signal (Fence (mFrameResources s ! ?p)) \<in> set (drop (gpuExecuted s) (mCommandQueue s))"
      by auto
    from WaitForFence_total [OF this(2)] obtain r where
      "WaitForFence (Fence (mFrameResources s ! ?p)) (drop (gpuExecuted s) (mCommandQueue s))
         (gpuExecuted s) (mFence s) = Some r" ..
    with True p h show ?thesis
      by (simp add: Update_wait_def ThrowIfFailed_def FAILED_def)
  next
    case False
    with p show ?thesis by (auto simp: Update_wait_def)
  qed
  then obtain s2 where w: "Update_wait (hrSetEventOnCompletion u) ?s1 = Returns s2" ..
  from Update_wait_Returns [OF w] obtain n c where s2: "s2 = ?s1\<lparr>gpuExecuted := n, mFence := c\<rparr>"
    by blast
  from assms(1) p have "list_all (\<lambda>e. unat (ObjCBIndex e) < length (ObjectCB (mFrameResources s ! ?p)))
      (mAllRitems s)" and pc: "PassCB (mFrameResources s ! ?p) \<noteq> []"
    by (simp_all add: scene_inv_def list_all_length)
  from UpdateObjectCBs_loop_total [OF this(1)] obtain r where
    r: "UpdateObjectCBs_loop (ObjectCB (mFrameResources s ! ?p)) (mAllRitems s) = Returns r" ..
  let ?s3 = "s2\<lparr>mFrameResources :=
                  (mFrameResources s2)[?p := (mFrameResources s2 ! ?p)\<lparr>ObjectCB := fst r\<rparr>],
                mAllRitems := snd r\<rparr>"
  from r p have o: "UpdateObjectCBs s2 = Returns ?s3"
    by (simp add: UpdateObjectCBs_def s2)
  from pc p have "\<exists>s'. UpdateMainPassCB (mainPassCB u) ?s3 = Returns s'"
    by (simp add: UpdateMainPassCB_def CopyData_def s2)
  with a w o show ?thesis by (auto simp: Update_def)
qed

lemma Draw_total:
  assumes "scene_inv s" and "mCurrFrameResource s \<noteq> None"
    and "0 \<le> hrAllocReset d" and "0 \<le> hrCommandListReset d" and "0 \<le> hrClose d"
    and "0 \<le> hrPresent d"
  shows "\<exists>s'. Draw d s = Returns s'"
proof -
  from assms(1,2) obtain p where p: "mCurrFrameResource s = Some p" "p < length (mFrameResources s)"
    by (auto simp: scene_inv_def ring_inv_def)
  from assms(1) have "\<not> list_ex (\<lambda>r. length (mAllRitems s) \<le> r \<or> Geo (mAllRitems s ! r) = None)
      (mOpaqueRitems s)"
    by (auto simp: scene_inv_def list_all_iff list_ex_iff)
  with p have "\<exists>dcs. DrawRenderItems s (mOpaqueRitems s) = Returns dcs"
    by (simp add: DrawRenderItems_def)
  with assms p show ?thesis
    by (auto simp: Draw_def scene_inv_def ThrowIfFailed_def FAILED_def Let_def)
qed


lemma first_frame_returns:
  assumes "Initialize g W hr (ShapesApp_new p f) = Returns s"
  shows "\<exists>s1 s'. Update ok_update s = Returns s1 \<and> Draw ok_draw s1 = Returns s' \<and>
           run ok_frame s = Returns s'"
proof -
  note I = Initialize_Returns [OF assms] and inv = Initialize_scene_inv [OF assms]
  have "Fence (mFrameResources s ! nat ((mCurrFrameResourceIndex s + 1) mod 3)) = 0"
    by (simp add: I(1,3) FrameResource_new_def)
  with Update_total [OF inv, of ok_update] obtain s1 where u: "Update ok_update s = Returns s1"
    by blast
  have inv1: "scene_inv s1" using step_scene_inv [OF inv, of "CallUpdate ok_update" s1] u by simp
  from Update_Returns [OF u] have "mCurrFrameResource s1 \<noteq> None" by simp
  from Draw_total [OF inv1 this, of ok_draw] obtain s' where d: "Draw ok_draw s1 = Returns s'"
    by (auto simp: ok_draw_def)
  from u d show ?thesis by (auto simp: ok_frame_def)
qed

section \<open>Propagation of a transform into the three frame resources\<close>

lemma written_age [simp]: "written s q (age e) = written s q e"
  by (simp add: written_def)

lemma Update_ObjectCB:
  assumes "Update u s = Returns s'"
  shows "\<exists>r. UpdateObjectCBs_loop
               (ObjectCB (mFrameResources s ! nat (mCurrFrameResourceIndex s'))) (mAllRitems s)
             = Returns r \<and>
           (\<forall>q. ObjectCB (mFrameResources s' ! q) =
                  (if q = nat (mCurrFrameResourceIndex s') then fst r
                   else ObjectCB (mFrameResources s ! q)))"
proof -
  from assms obtain s1 s2 s3 where
    a: "Update_advance (keyState u) s = Returns s1" and
    w: "Update_wait (hrSetEventOnCompletion u) s1 = Returns s2" and
    o: "UpdateObjectCBs s2 = Returns s3" and
    m: "UpdateMainPassCB (mainPassCB u) s3 = Returns s'"
    by (auto simp: Update_def)
  let ?p = "nat (mCurrFrameResourceIndex s')"
  from Update_Returns [OF assms] have i: "mCurrFrameResourceIndex s' = (mCurrFrameResourceIndex s + 1) smod 3"
    and pl: "?p < length (mFrameResources s)" by blast+
  from Update_advance_Returns [OF a]
  have s1: "s1 = s\<lparr>mIsWireframe := (keyState u AND 0x8000 \<noteq> 0),
                 mCurrFrameResourceIndex := (mCurrFrameResourceIndex s + 1) smod 3,
                 mCurrFrameResource := Some (nat ((mCurrFrameResourceIndex s + 1) smod 3))\<rparr>"
    by blast
  from Update_wait_Returns [OF w] obtain n c where s2: "s2 = s1\<lparr>gpuExecuted := n, mFence := c\<rparr>"
    by blast
  have f2: "mFrameResources s2 = mFrameResources s" "mAllRitems s2 = mAllRitems s"
    "mCurrFrameResource s2 = Some ?p"
    by (simp_all add: s2 s1 i)
  from UpdateObjectCBs_Returns_loop [OF o] f2 obtain r where
    r: "UpdateObjectCBs_loop (ObjectCB (mFrameResources s ! ?p)) (mAllRitems s) = Returns r"
    and s3: "s3 = s2\<lparr>mFrameResources :=
                    (mFrameResources s)[?p := (mFrameResources s ! ?p)\<lparr>ObjectCB := fst r\<rparr>],
                  mAllRitems := snd r\<rparr>"
    by auto
  have f3: "mCurrFrameResource s3 = Some ?p" by (simp add: s3 f2)
  from UpdateMainPassCB_Returns_cb [OF m] f3 obtain cb where
    s': "s' = s3\<lparr>mFrameResources := (mFrameResources s3)
                    [?p := (mFrameResources s3 ! ?p)\<lparr>PassCB := cb\<rparr>]\<rparr>"
    by auto
  have "ObjectCB (mFrameResources s' ! q) =
          (if q = ?p then fst r else ObjectCB (mFrameResources s ! q))" for q
    using pl by (subst s') (simp add: s3 nth_list_update)
  with r show ?thesis by blast
qed

lemma Draw_ObjectCB:
  assumes "Draw d s = Returns s'"
  shows "ObjectCB (mFrameResources s' ! q) = ObjectCB (mFrameResources s ! q)"
proof -
  from Draw_Returns [OF assms] obtain p where
    "p < length (mFrameResources s)" and
    "mFrameResources s' =
       (mFrameResources s)[p := (mFrameResources s ! p)\<lparr>Fence := mCurrentFence s + 1\<rparr>]"
    by auto
  then show ?thesis
    by (simp add: nth_list_update)
qed

lemma Update_written:
  assumes "Update u s = Returns s'" and "distinct (map ObjCBIndex (mAllRitems s))"
    and "e \<in> set (mAllRitems s)"
  shows "q \<noteq> nat (mCurrFrameResourceIndex s') \<Longrightarrow> written s' q e = written s q e"
    and "0 < NumFramesDirty e \<Longrightarrow> written s' (nat (mCurrFrameResourceIndex s')) e"
    and "NumFramesDirty e \<le> 0 \<Longrightarrow>
           written s' (nat (mCurrFrameResourceIndex s')) e
             = written s (nat (mCurrFrameResourceIndex s')) e"
proof -
  let ?p = "nat (mCurrFrameResourceIndex s')"
  from Update_ObjectCB [OF assms(1)] obtain r where
    r: "UpdateObjectCBs_loop (ObjectCB (mFrameResources s ! ?p)) (mAllRitems s) = Returns r"
    and cb: "\<And>q. ObjectCB (mFrameResources s' ! q) =
                  (if q = ?p then fst r else ObjectCB (mFrameResources s ! q))"
    by blast
  show "q \<noteq> ?p \<Longrightarrow> written s' q e = written s q e"
    by (simp add: written_def cb)
  show "0 < NumFramesDirty e \<Longrightarrow> written s' ?p e"
    using UpdateObjectCBs_loop_written [OF r assms(2,3)] by (simp add: written_def cb)
  show "written s' ?p e = written s ?p e" if n: "NumFramesDirty e \<le> 0"
  proof -
    have "unat (ObjCBIndex y) \<noteq> unat (ObjCBIndex e)"
      if y: "y \<in> set (mAllRitems s)" "0 < NumFramesDirty y" for y
    proof
      assume "unat (ObjCBIndex y) = unat (ObjCBIndex e)"
      then have "ObjCBIndex y = ObjCBIndex e" by (simp add: word_unat_eq_iff)
      with assms(2,3) y(1) have "y = e" by (auto simp: distinct_map dest: inj_onD)
      with y(2) n show False by simp
    qed
    then have "list_all (\<lambda>y. 0 < NumFramesDirty y \<longrightarrow> unat (ObjCBIndex y) \<noteq> unat (ObjCBIndex e))
        (mAllRitems s)"
      by (simp add: list_all_iff)
    from UpdateObjectCBs_loop_untouched [OF r this] show ?thesis
      by (simp add: written_def cb)
  qed
qed


lemma step_dirty_inv:
  assumes "scene_inv s \<and> k < length (mAllRitems s) \<and> dirty_inv s k"
    and "step ev s = Returns s'"
  shows "scene_inv s' \<and> k < length (mAllRitems s') \<and> dirty_inv s' k"
proof -
  from assms(1) have inv: "scene_inv s" and k: "k < length (mAllRitems s)" and d: "dirty_inv s k"
    by simp_all
  note inv' = step_scene_inv [OF inv assms(2)]
  note items = step_items [OF assms(2)]
  from items k have k': "k < length (mAllRitems s')" by simp
  let ?e = "mAllRitems s ! k"
  have "dirty_inv s' k"
  proof (cases ev)
    case (CallUpdate u)
    with assms(2) have U: "Update u s = Returns s'" by simp
    from inv have dist: "distinct (map ObjCBIndex (mAllRitems s))"
      and b: "0 \<le> mCurrFrameResourceIndex s" "mCurrFrameResourceIndex s < 3"
      by (simp_all add: scene_inv_def ring_inv_def gNumFrameResources_def)
    from k have m: "?e \<in> set (mAllRitems s)" by simp
    note W = Update_written [OF U dist m]
    from Update_Returns [OF U] b
    have i: "mCurrFrameResourceIndex s' = (mCurrFrameResourceIndex s + 1) mod 3"
      by (simp add: smod_mod_positive)
    from Update_Returns [OF U] k have e': "mAllRitems s' ! k = age ?e" by simp
    from b consider "mCurrFrameResourceIndex s = 0" | "mCurrFrameResourceIndex s = 1"
      | "mCurrFrameResourceIndex s = 2" by linarith
    then show ?thesis
    proof cases
      case 1
      with i have j: "mCurrFrameResourceIndex s' = 1" by simp
      from d W(1) [of 0] W(1) [of 2] W(2,3) show ?thesis
        by (auto simp: dirty_inv_def Let_def e' 1 j numeral_2_eq_2)
    next
      case 2
      with i have j: "mCurrFrameResourceIndex s' = 2" by simp
      from d W(1) [of 0] W(1) [of 1] W(2,3) show ?thesis
        by (auto simp: dirty_inv_def Let_def e' 2 j numeral_2_eq_2)
    next
      case 3
      with i have j: "mCurrFrameResourceIndex s' = 0" by simp
      from d W(1) [of 1] W(1) [of 2] W(2,3) show ?thesis
        by (auto simp: dirty_inv_def Let_def e' 3 j numeral_2_eq_2)
    qed
  next
    case (CallDraw dr)
    with assms(2) have D: "Draw dr s = Returns s'" by simp
    from Draw_Returns [OF D] have "mCurrFrameResourceIndex s' = mCurrFrameResourceIndex s"
      by auto
    moreover from items CallDraw have "mAllRitems s' = mAllRitems s" by simp
    ultimately show ?thesis using d
      by (simp add: dirty_inv_def written_def Draw_ObjectCB [OF D])
  next
    case (CallOnMouseDown b x y)
    with assms(2) d show ?thesis by (auto simp: dirty_inv_def written_def)
  next
    case (CallOnMouseUp b x y)
    with assms(2) d show ?thesis by (auto simp: OnMouseUp_def)
  next
    case (CallOnMouseMove b x y)
    with assms(2) d show ?thesis by (auto simp: dirty_inv_def written_def)
  next
    case GpuFinishesCommand
    with assms(2) d show ?thesis by (auto simp: dirty_inv_def written_def)
  qed
  with inv' k' show ?thesis by simp
qed

lemma run_dirty_inv:
  assumes "run es s = Returns s'" and "scene_inv s" and "k < length (mAllRitems s)"
    and "dirty_inv s k"
  shows "dirty_inv s' k"
proof -
  let ?P = "\<lambda>s. scene_inv s \<and> k < length (mAllRitems s) \<and> dirty_inv s k"
  have "?P s'"
  proof (rule run_invariant [where P = ?P])
    show "?P s" using assms by simp
    show "run es s = Returns s'" by fact
    show "\<And>e s s'. ?P s \<Longrightarrow> step e s = Returns s' \<Longrightarrow> ?P s'" by (rule step_dirty_inv)
  qed
  then show ?thesis by simp
qed


lemma UpdateObjectCBs_total:
  assumes "scene_inv s" and "mCurrFrameResource s \<noteq> None"
  shows "\<exists>s'. UpdateObjectCBs s = Returns s'"
proof -
  from assms obtain p where p: "mCurrFrameResource s = Some p" "p < length (mFrameResources s)"
    by (auto simp: scene_inv_def ring_inv_def)
  with assms(1) have "list_all (\<lambda>e. unat (ObjCBIndex e) < length (ObjectCB (mFrameResources s ! p)))
      (mAllRitems s)"
    by (simp add: scene_inv_def list_all_length)
  from UpdateObjectCBs_loop_total [OF this] p show ?thesis
    by (auto simp: UpdateObjectCBs_def)
qed

text \<open>
  Claim C2.  In a state of the running application, a call of \<^verbatim>\<open>UpdateObjectCBs\<close> that
  finds the dirty counter of a render item nonzero stores the transpose of the item's
  world matrix in the per-object constant buffer of the current frame resource, at the
  item's \<open>ObjCBIndex\<close>, and lowers the counter by exactly one.  Consequently, when a
  counter that stood at 3 has reached 0, at least three calls of \<^verbatim>\<open>Update\<close> have been
  made and the buffers of all three frame resources hold the transform.
\<close>

theorem UpdateObjectCBs_propagates:
  assumes "scene_inv s" and "k < length (mAllRitems s)"
    and "UpdateObjectCBs s = Returns s'" and "NumFramesDirty (mAllRitems s ! k) \<noteq> 0"
    and "scene_inv t" and "j < length (mAllRitems t)"
    and "NumFramesDirty (mAllRitems t ! j) = 3"
    and "run es t = Returns t'" and "NumFramesDirty (mAllRitems t' ! j) = 0"
  shows "mCurrFrameResource s = Some (nat (mCurrFrameResourceIndex s)) \<and>
         ObjectCB (mFrameResources s' ! nat (mCurrFrameResourceIndex s))
             ! unat (ObjCBIndex (mAllRitems s ! k))
           = Some (XMMatrixTranspose (World (mAllRitems s ! k))) \<and>
         NumFramesDirty (mAllRitems s' ! k) = NumFramesDirty (mAllRitems s ! k) - 1 \<and>
         3 \<le> updates es \<and>
         list_all (\<lambda>slot. ObjectCB (mFrameResources t' ! slot) ! unat (ObjCBIndex (mAllRitems t ! j))
                            = Some (XMMatrixTranspose (World (mAllRitems t ! j))))
           [0, 1, 2]"
proof -
  let ?e = "mAllRitems s ! k"
  from UpdateObjectCBs_Returns_loop [OF assms(3)] obtain p r where
    p: "mCurrFrameResource s = Some p" "p < length (mFrameResources s)" and
    r: "UpdateObjectCBs_loop (ObjectCB (mFrameResources s ! p)) (mAllRitems s) = Returns r" and
    s': "s' = s\<lparr>mFrameResources :=
                    (mFrameResources s)[p := (mFrameResources s ! p)\<lparr>ObjectCB := fst r\<rparr>],
                  mAllRitems := snd r\<rparr>"
    by blast
  from assms(1) p have pi: "p = nat (mCurrFrameResourceIndex s)"
    by (simp add: scene_inv_def)
  from assms(1,2) have "0 \<le> NumFramesDirty ?e"
    by (simp add: scene_inv_def list_all_length)
  with assms(4) have pos: "0 < NumFramesDirty ?e" by simp
  from assms(1) have dist: "distinct (map ObjCBIndex (mAllRitems s))"
    by (simp add: scene_inv_def)
  from assms(2) have m: "?e \<in> set (mAllRitems s)" by simp
  from UpdateObjectCBs_loop_written [OF r dist m pos] p
  have 1: "ObjectCB (mFrameResources s' ! nat (mCurrFrameResourceIndex s)) ! unat (ObjCBIndex ?e)
           = Some (XMMatrixTranspose (World ?e))"
    by (simp add: s' pi [symmetric])
  from UpdateObjectCBs_loop_items [OF r] assms(2) pos
  have 2: "NumFramesDirty (mAllRitems s' ! k) = NumFramesDirty ?e - 1"
    by (simp add: s')
  note items = run_items [OF assms(8)]
  from items assms(6,7,9) have 3: "3 \<le> updates es"
    by (simp add: age_pow_dirty)
  from assms(7) have "dirty_inv t j" by (simp add: dirty_inv_def)
  from run_dirty_inv [OF assms(8,5,6) this] assms(9)
  have "written t' 0 (mAllRitems t' ! j) \<and> written t' 1 (mAllRitems t' ! j)
          \<and> written t' 2 (mAllRitems t' ! j)"
    by (simp add: dirty_inv_def Let_def)
  with items assms(6) have 4: "list_all (\<lambda>slot. ObjectCB (mFrameResources t' ! slot) ! unat (ObjCBIndex (mAllRitems t ! j))
                            = Some (XMMatrixTranspose (World (mAllRitems t ! j))))
           [0, 1, 2]"
    by (simp add: written_def)
  from p pi 1 2 3 4 show ?thesis by simp
qed

lemma one_item_app_scene: "scene_inv one_item_app"
  by (simp add: scene_inv_def model_defs numeral_3_eq_3 CreateConstantBufferView_def)

lemma three_frames_in_one:
  "\<exists>s3. run (ok_frame @ ok_frame @ ok_frame) one_item_app = Returns s3"
  by (simp add: eval_simps)

theorem UpdateObjectCBs_propagates_witness:
  "\<exists>s s' t'.
     scene_inv (s :: unit ShapesApp) \<and> 0 < length (mAllRitems s) \<and>
     UpdateObjectCBs s = Returns s' \<and> NumFramesDirty (mAllRitems s ! 0) = 2 \<and>
     scene_inv one_item_app \<and> 0 < length (mAllRitems one_item_app) \<and>
     NumFramesDirty (mAllRitems one_item_app ! 0) = 3 \<and>
     run (ok_frame @ ok_frame @ ok_frame) one_item_app = Returns t' \<and>
     NumFramesDirty (mAllRitems t' ! 0) = 0 \<and>
     ObjectCB (mFrameResources s' ! nat (mCurrFrameResourceIndex s)) ! unat (ObjCBIndex (mAllRitems s ! 0))
       = Some (XMMatrixTranspose (World (mAllRitems s ! 0))) \<and>
     NumFramesDirty (mAllRitems s' ! 0) = 1 \<and>
     list_all (\<lambda>slot. ObjectCB (mFrameResources t' ! slot) ! 0 = Some Identity4x4) [0, 1, 2]"
proof -
  from small_meshes_total obtain s0 where
    i: "Initialize small_meshes (\<lambda>k. Identity4x4) 0 (ShapesApp_new (0, 0) 0 :: unit ShapesApp) = Returns s0"
    by blast
  from first_frame_returns [OF i] obtain s1 s where
    u: "Update ok_update s0 = Returns s1" and d: "Draw ok_draw s1 = Returns s"
    and r: "run ok_frame s0 = Returns s"
    by blast
  have inv: "scene_inv s" by (rule run_scene_inv [OF r Initialize_scene_inv [OF i]])
  from Update_Returns [OF u] Draw_Returns [OF d] have c: "mCurrFrameResource s \<noteq> None" by auto
  from UpdateObjectCBs_total [OF inv c] obtain s' where o: "UpdateObjectCBs s = Returns s'" ..
  have l0: "length (mAllRitems s0) = 23" by (rule Initialize_Returns(4) [OF i])
  have "NumFramesDirty (mAllRitems s0 ! 0) = map NumFramesDirty (mAllRitems s0) ! 0"
    using l0 by simp
  then have n0: "NumFramesDirty (mAllRitems s0 ! 0) = 3"
    by (simp add: Initialize_Returns(6) [OF i])
  from run_items [OF r] l0 n0 have l: "0 < length (mAllRitems s)"
    and n: "NumFramesDirty (mAllRitems s ! 0) = 2"
    by (simp_all add: ok_frame_def)
  from three_frames_in_one obtain t' where
    rt: "run (ok_frame @ ok_frame @ ok_frame) one_item_app = Returns t'" ..
  have lt: "0 < length (mAllRitems one_item_app)"
    and nt: "NumFramesDirty (mAllRitems one_item_app ! 0) = 3"
    and wt: "World (mAllRitems one_item_app ! 0) = Identity4x4"
    and ot: "ObjCBIndex (mAllRitems one_item_app ! 0) = 0"
    by (simp_all add: model_defs)
  from run_items [OF rt] have nt': "NumFramesDirty (mAllRitems t' ! 0) = 0"
    by (simp add: model_defs age_pow_dirty)
  have n2: "NumFramesDirty (mAllRitems s ! 0) \<noteq> 0" using n by simp
  have tr: "XMMatrixTranspose Identity4x4 = Identity4x4"
    by (simp add: XMMatrixTranspose_def Identity4x4_def upt_0_4)
  from UpdateObjectCBs_propagates [OF inv l o n2 one_item_app_scene lt nt rt nt'] n
  have c: "ObjectCB (mFrameResources s' ! nat (mCurrFrameResourceIndex s)) ! unat (ObjCBIndex (mAllRitems s ! 0))
       = Some (XMMatrixTranspose (World (mAllRitems s ! 0)))"
     "NumFramesDirty (mAllRitems s' ! 0) = 1"
     "list_all (\<lambda>slot. ObjectCB (mFrameResources t' ! slot) ! 0 = Some Identity4x4) [0, 1, 2]"
    by (simp_all add: wt ot tr)
  show ?thesis
    apply (rule exI [of _ s], rule exI [of _ s'], rule exI [of _ t'])
    using inv l o n lt nt rt nt' one_item_app_scene c
    apply (intro conjI)
    apply assumption+
    done
qed


section \<open>The fence counter\<close>

lemma signals_append [simp]: "signals (q @ q') = signals q @ signals q'"
  by (induction q rule: signals.induct) simp_all

lemma draws_in_Cons: "draws_in (e # es) = draws_in [e] + draws_in es"
  by (cases e) simp_all

lemma word_less_inc: "w \<noteq> - 1 \<Longrightarrow> w < w + 1" for w :: "'a::len word"
  using inc_less_eq_self_iff_eq [of w] by (simp add: not_le)

lemma unat_inc:
  assumes "w \<noteq> - 1"
  shows "unat (w + 1) = Suc (unat w)"
proof -
  from assms have "w + 1 \<noteq> 0" using max_word_wrap [of w] by blast
  then have "1 + w \<noteq> 0" by (simp add: add.commute)
  from unatSuc [OF this] show ?thesis by (simp add: add.commute)
qed

lemma unat_max_64: "unat (- 1 :: UINT64) = 2 ^ 64 - 1"
  by (simp add: unsigned_minus_1_eq_mask mask_eq_exp_minus_1)

lemma Draw_fence:
  assumes "Draw d s = Returns s'"
  shows "mCurrentFence s' = mCurrentFence s + 1"
    and "\<exists>p. mCurrFrameResource s = Some p \<and> p < length (mFrameResources s) \<and>
              Fence (mFrameResources s' ! p) = mCurrentFence s'"
    and "\<exists>cl. mCommandQueue s' = mCommandQueue s @ [ExecuteCommandLists cl, Signal (mCurrentFence s')]"
    and "signals (mCommandQueue s') = signals (mCommandQueue s) @ [mCurrentFence s + 1]"
proof -
  from Draw_Returns [OF assms] obtain p cl where
    p: "mCurrFrameResource s = Some p" "p < length (mFrameResources s)" and
    s': "s' = s\<lparr>mCurrentFence := mCurrentFence s + 1,
                  mFrameResources :=
                    (mFrameResources s)[p := (mFrameResources s ! p)\<lparr>Fence := mCurrentFence s + 1\<rparr>],
                  mCommandQueue := mCommandQueue s @ [ExecuteCommandLists cl, Signal (mCurrentFence s + 1)]\<rparr>"
    by blast
  show "mCurrentFence s' = mCurrentFence s + 1" by (simp add: s')
  show "\<exists>p. mCurrFrameResource s = Some p \<and> p < length (mFrameResources s) \<and>
              Fence (mFrameResources s' ! p) = mCurrentFence s'"
    using p by (simp add: s')
  show "\<exists>cl. mCommandQueue s' = mCommandQueue s @ [ExecuteCommandLists cl, Signal (mCurrentFence s')]"
    by (simp add: s')
  show "signals (mCommandQueue s') = signals (mCommandQueue s) @ [mCurrentFence s + 1]"
    by (simp add: s')
qed

lemma Draw_fence_inv:
  assumes "Draw d s = Returns s'" and "fence_inv s" and "mCurrentFence s \<noteq> - 1"
  shows "fence_inv s'"
proof -
  note D = Draw_fence [OF assms(1)]
  note lt = word_less_inc [OF assms(3)]
  from assms(2) have "\<forall>v\<in>set (signals (mCommandQueue s)). v < mCurrentFence s + 1"
    using lt by (auto simp: fence_inv_def list_all_iff)
  moreover from assms(2) have "\<forall>v\<in>set (signals (mCommandQueue s)). v \<le> mCurrentFence s + 1"
    using lt by (auto simp: fence_inv_def list_all_iff)
  ultimately show ?thesis using assms(2)
    by (simp add: fence_inv_def D(1,4) sorted_wrt_append list_all_iff)
qed

lemma step_fence:
  assumes "step e s = Returns s'"
  shows "mCurrentFence s' = mCurrentFence s + of_nat (draws_in [e])"
    and "draws_in [e] = 0 \<Longrightarrow> mCommandQueue s' = mCommandQueue s"
proof -
  have "mCurrentFence s' = mCurrentFence s + of_nat (draws_in [e]) \<and>
        (draws_in [e] = 0 \<longrightarrow> mCommandQueue s' = mCommandQueue s)"
  proof (cases e)
    case (CallUpdate u)
    with assms Update_Returns [of u s s'] show ?thesis by simp
  next
    case (CallDraw d)
    with assms Draw_fence(1) [of d s s'] show ?thesis by simp
  next
    case (CallOnMouseDown b x y)
    with assms show ?thesis by auto
  next
    case (CallOnMouseUp b x y)
    with assms show ?thesis by (auto simp: OnMouseUp_def)
  next
    case (CallOnMouseMove b x y)
    with assms show ?thesis by auto
  next
    case GpuFinishesCommand
    with assms show ?thesis by auto
  qed
  then show "mCurrentFence s' = mCurrentFence s + of_nat (draws_in [e])"
    and "draws_in [e] = 0 \<Longrightarrow> mCommandQueue s' = mCommandQueue s" by simp_all
qed

lemma run_fence_inv:
  assumes "run es s = Returns s'" and "fence_inv s"
    and "unat (mCurrentFence s) + draws_in es < 2 ^ 64"
  shows "fence_inv s' \<and> unat (mCurrentFence s') = unat (mCurrentFence s) + draws_in es"
  using assms
proof (induction es arbitrary: s)
  case Nil
  then show ?case by simp
next
  case (Cons e es)
  from Cons.prems(1) obtain s1 where s1: "step e s = Returns s1" and r: "run es s1 = Returns s'"
    by auto
  have "fence_inv s1 \<and> unat (mCurrentFence s1) = unat (mCurrentFence s) + draws_in [e]"
  proof (cases "draws_in [e] = 0")
    case True
    with step_fence [OF s1] Cons.prems(2) show ?thesis by (simp add: fence_inv_def)
  next
    case False
    then obtain d where e: "e = CallDraw d" by (cases e) simp_all
    from Cons.prems(3) e have "unat (mCurrentFence s) < 2 ^ 64 - 1" by simp
    then have n: "mCurrentFence s \<noteq> - 1" by (auto simp: unat_max_64)
    from s1 e have D: "Draw d s = Returns s1" by simp
    from Draw_fence_inv [OF D Cons.prems(2) n] Draw_fence(1) [OF D] unat_inc [OF n] e
    show ?thesis by simp
  qed
  moreover from this Cons.prems(3) have "unat (mCurrentFence s1) + draws_in es < 2 ^ 64"
    by (simp add: draws_in_Cons [of e es])
  ultimately show ?case using Cons.IH [OF r]
    by (simp add: draws_in_Cons [of e es])
qed


lemma Initialize_fence_inv:
  assumes "Initialize g W hr (ShapesApp_new p f) = Returns s"
  shows "fence_inv s"
  by (simp add: fence_inv_def Initialize_Returns(16) [OF assms])

text \<open>
  Claim C6 fails in \<^verbatim>\<open>Draw\<close>: the return code of \<^verbatim>\<open>mCommandQueue->Signal\<close> is dropped.
  With a failing code there, \<^verbatim>\<open>Draw\<close> returns as if the signal had been queued, while
  the same code from \<^verbatim>\<open>Present\<close>, which is wrapped in \<^verbatim>\<open>ThrowIfFailed\<close>, is thrown.
\<close>

theorem Draw_drops_Signal_failure:
  "FAILED (hrSignal signal_fails) \<and>
   map_option mCurrentFence
     (returned (andThen (Update ok_update one_item_app) (Draw signal_fails))) = Some 1 \<and>
   andThen (Update ok_update one_item_app) (Draw signal_fails)
     = andThen (Update ok_update one_item_app) (Draw ok_draw) \<and>
   andThen (Update ok_update one_item_app) (Draw present_fails) = Throws (- 2005270523)"
  by (simp add: signal_fails_def present_fails_def eval_simps)


section \<open>Waiting for the frame resource\<close>







section \<open>The descriptor heap\<close>

lemma sint_of_nat_small:
  "k < 2 ^ 31 \<Longrightarrow> sint (of_nat k :: UINT) = int k"
  by (simp add: signed_of_nat signed_take_bit_int_eq_self)

lemma unat_of_nat_small:
  "k < 2 ^ 31 \<Longrightarrow> unat (of_nat k :: UINT) = k"
  by (simp add: unat_of_nat)

lemma views_fold:
  "views (fold CreateConstantBufferView L h) = views h ++ map_of (rev L)"
proof (induction L arbitrary: h)
  case Nil
  then show ?case by simp
next
  case (Cons x L)
  have "views (CreateConstantBufferView x h) ++ map_of (rev L)
          = views h ++ (map_of (rev L @ [x]))"
    by (cases x) (simp add: CreateConstantBufferView_def map_add_upd_left)
  with Cons show ?case by simp
qed


lemma objectViews_frame:
  assumes "3 * n + 3 < 2 ^ 31" and "f < 3"
  shows "map (\<lambda>i. (sint (of_nat f * of_nat n + of_nat i :: UINT), ObjectCBV f i)) [0..<n]
           = map (\<lambda>i. (int (f * n + i), ObjectCBV f i)) [0..<n]"
proof (rule map_cong [OF refl])
  fix i assume "i \<in> set [0..<n]"
  then have i: "i < n" by simp
  from assms(2) have "f * n \<le> 2 * n" by simp
  with i assms(1) have "f * n + i < 2 ^ 31" by linarith
  moreover have "(of_nat f * of_nat n + of_nat i :: UINT) = of_nat (f * n + i)" by simp
  ultimately show "(sint (of_nat f * of_nat n + of_nat i :: UINT), ObjectCBV f i)
                     = (int (f * n + i), ObjectCBV f i)"
    by (simp only: sint_of_nat_small)
qed

lemma objectViews_eq:
  assumes "3 * n + 3 < 2 ^ 31"
  shows "objectViews (of_nat n) =
           map (\<lambda>i. (int i, ObjectCBV 0 i)) [0..<n]
           @ map (\<lambda>i. (int (n + i), ObjectCBV 1 i)) [0..<n]
           @ map (\<lambda>i. (int (2 * n + i), ObjectCBV 2 i)) [0..<n]"
proof -
  from assms have "n < 2 ^ 31" by simp
  then have u: "unat (of_nat n :: UINT) = n" by (rule unat_of_nat_small)
  from objectViews_frame [OF assms, of 0] objectViews_frame [OF assms, of 1]
    objectViews_frame [OF assms, of 2]
  show ?thesis
    by (simp add: objectViews_def gNumFrameResources_def upt_0_3 u)
qed

lemma passViews_eq:
  assumes "3 * n + 3 < 2 ^ 31"
  shows "passViews (of_nat n * 3) =
           [(int (3 * n), PassCBV 0), (int (3 * n + 1), PassCBV 1), (int (3 * n + 2), PassCBV 2)]"
proof -
  have "(of_nat n * 3 + of_nat k :: UINT) = of_nat (3 * n + k)" for k by simp
  moreover from assms have "3 * n + k < 2 ^ 31" if "k < 3" for k using that by simp
  ultimately have "sint (of_nat n * 3 + of_nat k :: UINT) = int (3 * n + k)" if "k < 3" for k
    using that by (simp only: sint_of_nat_small)
  from this [of 0] this [of 1] this [of 2] show ?thesis
    by (simp add: passViews_def gNumFrameResources_def upt_0_3)
qed

lemma map_int_shift: "map (\<lambda>i. int (k + i)) [0..<m] = map int [k..<k + m]"
  by (rule nth_equalityI) simp_all

lemma upt_three: "[k..<k + 3] = [k, k + 1, k + 2]"
  by (simp add: numeral_3_eq_3 upt_rec [of k] upt_rec [of "Suc k"] upt_rec [of "Suc (Suc k)"])

lemma heap_keys:
  assumes "3 * n + 3 < 2 ^ 31"
  shows "map fst (objectViews (of_nat n) @ passViews (of_nat n * 3)) = map int [0..<3 * n + 3]"
proof -
  have e: "2 * n = n + n" "3 * n = n + n + n" by simp_all
  have 1: "[0..<n + n + n + 3] = [0..<n + n + n] @ [n + n + n..<n + n + n + 3]"
    by (rule upt_add_eq_append) simp
  have 2: "[0..<n + n + n] = [0..<n + n] @ [n + n..<n + n + n]"
    by (rule upt_add_eq_append) simp
  have 3: "[0..<n + n] = [0..<n] @ [n..<n + n]"
    by (rule upt_add_eq_append) simp
  have c: "[0..<n + n + n + 3] =
      [0..<n] @ [n..<n + n] @ [n + n..<n + n + n] @ [n + n + n, n + n + n + 1, n + n + n + 2]"
    by (simp only: 1 2 3 upt_three append_assoc)
  have m: "map fst (map (\<lambda>i. (int (k + i), v i)) [0..<n]) = map int [k..<k + n]" for k v
    by (rule nth_equalityI) simp_all
  have m0: "map fst (map (\<lambda>i. (int i, v i)) [0..<n]) = map int [0..<n]" for v
    by (simp add: o_def)
  show ?thesis
    unfolding objectViews_eq [OF assms] passViews_eq [OF assms] e c map_append m m0
    by simp
qed

lemma heap_lookup:
  assumes "3 * n + 3 < 2 ^ 31" and "f < 3"
  shows "i < n \<Longrightarrow>
           views (fold CreateConstantBufferView (objectViews (of_nat n) @ passViews (of_nat n * 3))
                    \<lparr>NumDescriptors = d, views = Map.empty\<rparr>) (int (f * n + i))
             = Some (ObjectCBV f i)"
    and "views (fold CreateConstantBufferView (objectViews (of_nat n) @ passViews (of_nat n * 3))
                    \<lparr>NumDescriptors = d, views = Map.empty\<rparr>) (int (3 * n + f))
             = Some (PassCBV f)"
proof -
  let ?L = "objectViews (of_nat n) @ passViews (of_nat n * 3)"
  have d: "distinct (map fst (rev ?L))"
    by (simp only: distinct_rev rev_map [symmetric] heap_keys [OF assms(1)])
       (simp add: distinct_map inj_on_def)
  from assms(2) consider "f = 0" | "f = 1" | "f = 2" by linarith
  then have o: "i < n \<Longrightarrow> (int (f * n + i), ObjectCBV f i) \<in> set (rev ?L)"
    and p: "(int (3 * n + f), PassCBV f) \<in> set (rev ?L)"
    by (cases; simp add: objectViews_eq [OF assms(1)] passViews_eq [OF assms(1)] image_iff; fail)+
  show "i < n \<Longrightarrow>
           views (fold CreateConstantBufferView ?L \<lparr>NumDescriptors = d, views = Map.empty\<rparr>)
             (int (f * n + i)) = Some (ObjectCBV f i)"
    using map_of_is_SomeI [OF d o] by (simp add: views_fold)
  show "views (fold CreateConstantBufferView ?L \<lparr>NumDescriptors = d, views = Map.empty\<rparr>)
             (int (3 * n + f)) = Some (PassCBV f)"
    using map_of_is_SomeI [OF d p] by (simp add: views_fold)
qed


lemma step_static:
  assumes "step e s = Returns s'"
  shows "mCbvHeap s' = mCbvHeap s \<and> mOpaqueRitems s' = mOpaqueRitems s \<and>
         mPassCbvOffset s' = mPassCbvOffset s"
proof (cases e)
  case (CallUpdate u)
  with assms Update_Returns [of u s s'] show ?thesis by simp
next
  case (CallDraw d)
  with assms Draw_Returns [of d s s'] show ?thesis by auto
next
  case (CallOnMouseDown b x y)
  with assms show ?thesis by auto
next
  case (CallOnMouseUp b x y)
  with assms show ?thesis by (auto simp: OnMouseUp_def)
next
  case (CallOnMouseMove b x y)
  with assms show ?thesis by auto
next
  case GpuFinishesCommand
  with assms show ?thesis by auto
qed

lemma run_static:
  assumes "run es s = Returns s'"
  shows "mCbvHeap s' = mCbvHeap s \<and> mOpaqueRitems s' = mOpaqueRitems s \<and>
         mPassCbvOffset s' = mPassCbvOffset s"
  using assms
proof (induction es arbitrary: s)
  case Nil
  then show ?case by simp
next
  case (Cons e es)
  from Cons.prems obtain s1 where s1: "step e s = Returns s1" and r: "run es s1 = Returns s'"
    by auto
  from Cons.IH [OF r] step_static [OF s1] show ?case by simp
qed


text \<open>
  Claim C4.  \<^verbatim>\<open>BuildRenderItems\<close> builds 23 render items whose constant-buffer indices
  are pairwise distinct and below the object count 23; the heap has \<open>(23 + 1) * 3 = 72\<close>
  descriptors.  The 69 offsets computed at draw time for the three frame resources and
  the 23 items, together with the 3 per-pass offsets, are pairwise distinct and lie in
  \<open>[0, 72)\<close>, and so do the offsets at which the views are created.
\<close>

theorem descriptor_offsets_injective:
  assumes "Initialize g W hr (ShapesApp_new p f0) = Returns s"
  shows "\<exists>h. mCbvHeap s = Some h \<and> unat (NumDescriptors h) = (23 + 1) * 3 \<and>
           length (mAllRitems s) = 23 \<and> length (mOpaqueRitems s) = 23 \<and>
           map ObjCBIndex (mAllRitems s) =
             [4, 5, 6, 7, 0, 8, 1, 9, 2, 10, 3, 11, 12, 13, 14, 15, 16, 17, 18, 19, 20, 21, 22] \<and>
           distinct (map ObjCBIndex (mAllRitems s)) \<and>
           list_all (\<lambda>e. unat (ObjCBIndex e) < length (mOpaqueRitems s)) (mAllRitems s) \<and>
           distinct
             (concat (map (\<lambda>frameIndex.
                        map (\<lambda>e. sint (word_of_int frameIndex * of_nat (length (mOpaqueRitems s))
                                          + ObjCBIndex e))
                          (mAllRitems s)) [0, 1, 2])
              @ map (\<lambda>frameIndex. sint (mPassCbvOffset s + word_of_int frameIndex)) [0, 1, 2]) \<and>
           list_all (\<lambda>k. 0 \<le> k \<and> k < uint (NumDescriptors h))
             (concat (map (\<lambda>frameIndex.
                        map (\<lambda>e. sint (word_of_int frameIndex * of_nat (length (mOpaqueRitems s))
                                          + ObjCBIndex e))
                          (mAllRitems s)) [0, 1, 2])
              @ map (\<lambda>frameIndex. sint (mPassCbvOffset s + word_of_int frameIndex)) [0, 1, 2]) \<and>
           map fst (objectViews (of_nat (length (mOpaqueRitems s))) @ passViews (mPassCbvOffset s))
             = map int [0..<72]"
proof -
  note I = Initialize_Returns [OF assms]
  let ?L = "[4, 5, 6, 7, 0, 8, 1, 9, 2, 10, 3, 11, 12, 13, 14, 15, 16, 17, 18, 19, 20, 21, 22] :: UINT list"
  let ?h = "fold CreateConstantBufferView (objectViews 23 @ passViews 69)
              \<lparr>NumDescriptors = 72, views = Map.empty\<rparr>"
  define G where "G = (\<lambda>frameIndex c.
      sint (word_of_int frameIndex * of_nat (length (mOpaqueRitems s)) + c :: UINT))"
  have m: "map (\<lambda>e. G frameIndex (ObjCBIndex e)) (mAllRitems s) = map (G frameIndex) ?L"
    for frameIndex
  proof -
    have "map (\<lambda>e. G frameIndex (ObjCBIndex e)) (mAllRitems s)
            = map (G frameIndex) (map ObjCBIndex (mAllRitems s))"
      by (simp add: o_def)
    then show ?thesis by (simp only: I(5))
  qed
  have offs: "concat (map (\<lambda>frameIndex.
                        map (\<lambda>e. sint (word_of_int frameIndex * of_nat (length (mOpaqueRitems s))
                                          + ObjCBIndex e))
                          (mAllRitems s)) [0, 1, 2])
              @ map (\<lambda>frameIndex. sint (mPassCbvOffset s + word_of_int frameIndex)) [0, 1, 2]
            = map (G 0) ?L @ map (G 1) ?L @ map (G 2) ?L @ [69, 70, 71]"
    using m [of 0] m [of 1] m [of 2] by (simp add: G_def I(9))
  have vals: "map (G 0) ?L @ map (G 1) ?L @ map (G 2) ?L @ [69, 70, 71] =
      [4, 5, 6, 7, 0, 8, 1, 9, 2, 10, 3, 11, 12, 13, 14, 15, 16, 17, 18, 19, 20, 21, 22,
       27, 28, 29, 30, 23, 31, 24, 32, 25, 33, 26, 34, 35, 36, 37, 38, 39, 40, 41, 42, 43, 44, 45,
       50, 51, 52, 53, 46, 54, 47, 55, 48, 56, 49, 57, 58, 59, 60, 61, 62, 63, 64, 65, 66, 67, 68,
       69, 70, 71]"
    by (simp add: G_def I(8))
  have n: "NumDescriptors (fold CreateConstantBufferView L h) = NumDescriptors h" for L h
    by (induction L arbitrary: h) (simp_all add: CreateConstantBufferView_def)
  have h: "mCbvHeap s = Some ?h" "unat (NumDescriptors ?h) = (23 + 1) * 3"
    "uint (NumDescriptors ?h) = 72"
    by (simp_all add: I(10) n)
  have "list_all (\<lambda>c. unat c < 23) (map ObjCBIndex (mAllRitems s))" by (simp add: I(5))
  then have b: "list_all (\<lambda>e. unat (ObjCBIndex e) < length (mOpaqueRitems s)) (mAllRitems s)"
    by (simp add: list_all_iff I(8))
  have k: "map fst (objectViews (of_nat (length (mOpaqueRitems s))) @ passViews (mPassCbvOffset s))
             = map int [0..<72]"
    using heap_keys [of 23] by (simp add: I(8,9))
  have d: "distinct (map ObjCBIndex (mAllRitems s))" by (simp add: I(5))
  have l: "length (mAllRitems s) = 23" "length (mOpaqueRitems s) = 23"
    by (simp_all add: I(4,8))
  let ?offs = "concat (map (\<lambda>frameIndex.
                        map (\<lambda>e. sint (word_of_int frameIndex * of_nat (length (mOpaqueRitems s))
                                          + ObjCBIndex e))
                          (mAllRitems s)) [0, 1, 2])
              @ map (\<lambda>frameIndex. sint (mPassCbvOffset s + word_of_int frameIndex)) [0, 1, 2]"
  have d2: "distinct ?offs"
    by (simp only: offs vals) simp
  have r2: "list_all (\<lambda>k. 0 \<le> k \<and> k < uint (NumDescriptors ?h)) ?offs"
    by (simp only: offs vals h(3)) simp
  from h(1) h(2) l(1) l(2) I(5) d b d2 r2 k show ?thesis
    by (intro exI [of _ ?h] conjI)
qed

theorem descriptor_offsets_injective_witness:
  "\<exists>s h. Initialize small_meshes (\<lambda>k. Identity4x4) 0 (ShapesApp_new (0, 0) 0 :: unit ShapesApp) = Returns s \<and>
     mCbvHeap s = Some h \<and> unat (NumDescriptors h) = 72 \<and> length (mAllRitems s) = 23 \<and>
     distinct (map ObjCBIndex (mAllRitems s)) \<and>
     list_all (\<lambda>e. unat (ObjCBIndex e) < length (mOpaqueRitems s)) (mAllRitems s)"
proof -
  from small_meshes_total obtain s where
    i: "Initialize small_meshes (\<lambda>k. Identity4x4) 0 (ShapesApp_new (0, 0) 0 :: unit ShapesApp) = Returns s"
    by blast
  from descriptor_offsets_injective [OF i] obtain h where
    "mCbvHeap s = Some h" "unat (NumDescriptors h) = 72" "length (mAllRitems s) = 23"
    "distinct (map ObjCBIndex (mAllRitems s))"
    "list_all (\<lambda>e. unat (ObjCBIndex e) < length (mOpaqueRitems s)) (mAllRitems s)"
    by auto
  with i show ?thesis by blast
qed


text \<open>
  Claim C3.  The views are created at the offsets \<open>f * n + i\<close> (object \<open>i\<close> of frame
  resource \<open>f\<close>, \<open>n\<close> the number of objects) and \<open>n * 3 + f\<close> (pass of frame resource
  \<open>f\<close>).  In every state reached from the initialised application, \<^verbatim>\<open>Draw\<close> binds the
  pass view at \<open>n * 3 + mCurrFrameResourceIndex\<close> and, for every render item, the view at
  \<open>mCurrFrameResourceIndex * n + ObjCBIndex\<close>; the heap holds at these offsets the pass
  view and the object view of the current frame resource.
\<close>

theorem descriptor_addressing:
  assumes "Initialize g W hr (ShapesApp_new p f0) = Returns s"
    and "run es s = Returns t"
    and "Draw d t = Returns t'"
  shows "\<exists>h cl v.
           mCbvHeap t = Some h \<and>
           mCommandQueue t' = mCommandQueue t @ [ExecuteCommandLists cl, Signal v] \<and>
           objectViews (of_nat (length (mOpaqueRitems t))) =
             concat (map (\<lambda>f. map (\<lambda>i. (int (f * length (mOpaqueRitems t) + i), ObjectCBV f i))
                                 [0..<length (mOpaqueRitems t)]) [0..<3]) \<and>
           mPassCbvOffset t = of_nat (length (mOpaqueRitems t) * 3) \<and>
           passViews (mPassCbvOffset t) =
             map (\<lambda>f. (int (length (mOpaqueRitems t) * 3 + f), PassCBV f)) [0..<3] \<and>
           passCbvIndex cl = int (length (mOpaqueRitems t) * 3) + mCurrFrameResourceIndex t \<and>
           map (\<lambda>dc. sint (cbvIndex dc)) (draws cl) =
             map (\<lambda>e. mCurrFrameResourceIndex t * int (length (mOpaqueRitems t))
                        + uint (ObjCBIndex e)) (mAllRitems t) \<and>
           views h (passCbvIndex cl) = Some (PassCBV (nat (mCurrFrameResourceIndex t))) \<and>
           map (\<lambda>dc. views h (sint (cbvIndex dc))) (draws cl) =
             map (\<lambda>e. Some (ObjectCBV (nat (mCurrFrameResourceIndex t)) (unat (ObjCBIndex e))))
               (mAllRitems t)"
proof -
  note I = Initialize_Returns [OF assms(1)]
  let ?L = "[4, 5, 6, 7, 0, 8, 1, 9, 2, 10, 3, 11, 12, 13, 14, 15, 16, 17, 18, 19, 20, 21, 22] :: UINT list"
  let ?h = "fold CreateConstantBufferView (objectViews (of_nat 23) @ passViews (of_nat 23 * 3))
              \<lparr>NumDescriptors = 72, views = Map.empty\<rparr>"
  let ?idx = "mCurrFrameResourceIndex t"
  have small: "3 * 23 + 3 < (2 :: nat) ^ 31" by simp
  note S = run_static [OF assms(2)]
  have ring: "ring_inv s" by (simp add: ring_inv_def I(1) gNumFrameResources_def)
  from run_index [OF assms(2) ring] have "ring_inv t" by simp
  then have idx: "0 \<le> ?idx" "?idx < 3" by (simp_all add: ring_inv_def gNumFrameResources_def)
  define f where "f = nat ?idx"
  from idx have f: "f < 3" "?idx = int f" by (simp_all add: f_def)
  have opaque: "mOpaqueRitems t = [0..<23]" by (simp add: S I(8))
  have n: "length (mOpaqueRitems t) = 23" by (simp add: opaque)
  have off: "mPassCbvOffset t = of_nat (23 * 3)" by (simp add: S I(9))
  have heap: "mCbvHeap t = Some ?h" by (simp add: S I(10))
  have items: "map ObjCBIndex (mAllRitems t) = ?L"
    by (simp add: run_items [OF assms(2)] I(5))
  then have "length (map ObjCBIndex (mAllRitems t)) = 23" by simp
  then have len: "length (mAllRitems t) = 23" by simp
  have "list_all (\<lambda>c. unat c < 23) (map ObjCBIndex (mAllRitems t))" by (simp add: items)
  then have below: "unat (ObjCBIndex e) < 23" if "e \<in> set (mAllRitems t)" for e
    using that by (simp add: list_all_iff)
  have nth: "map (\<lambda>r. mAllRitems t ! r) [0..<23] = mAllRitems t"
    using map_nth [of "mAllRitems t"] by (simp only: len)
  from Draw_Returns [OF assms(3)] obtain q dcs where
    dcs: "DrawRenderItems t (mOpaqueRitems t) = Returns dcs" and
    t': "mCommandQueue t' = mCommandQueue t @
           [ExecuteCommandLists
              \<lparr>pso = (if mIsWireframe t then ''opaque_wireframe'' else ''opaque''),
               passCbvIndex = sint (mPassCbvOffset t + word_of_int ?idx),
               draws = dcs\<rparr>,
            Signal (mCurrentFence t + 1)]"
    by auto
  let ?cl = "\<lparr>pso = (if mIsWireframe t then ''opaque_wireframe'' else ''opaque''),
              passCbvIndex = sint (mPassCbvOffset t + word_of_int ?idx),
              draws = dcs\<rparr>"
  from dcs have "map cbvIndex dcs =
      map (\<lambda>r. word_of_int ?idx * of_nat 23 + ObjCBIndex (mAllRitems t ! r)) [0..<23]"
    by (auto simp: DrawRenderItems_def opaque Let_def o_def split: if_splits)
  also have "\<dots> = map (\<lambda>e. word_of_int ?idx * of_nat 23 + ObjCBIndex e)
                     (map (\<lambda>r. mAllRitems t ! r) [0..<23])"
    by (simp only: map_map o_def)
  finally have cbv: "map cbvIndex dcs =
      map (\<lambda>e. word_of_int ?idx * of_nat 23 + ObjCBIndex e) (mAllRitems t)"
    by (simp only: nth)
  have word: "(word_of_int ?idx * of_nat 23 + ObjCBIndex e :: UINT)
                = of_nat (f * 23 + unat (ObjCBIndex e))" for e
    by (simp add: f(2))
  have sint: "sint (word_of_int ?idx * of_nat 23 + ObjCBIndex e :: UINT)
                = int (f * 23 + unat (ObjCBIndex e))" if "e \<in> set (mAllRitems t)" for e
  proof -
    from below [OF that] f(1) have "f * 23 + unat (ObjCBIndex e) < 2 ^ 31" by simp
    then show ?thesis by (simp only: word sint_of_nat_small)
  qed
  have pword: "(mPassCbvOffset t + word_of_int ?idx :: UINT) = of_nat (3 * 23 + f)"
    by (simp add: off f(2))
  from f(1) have "3 * 23 + f < 2 ^ 31" by simp
  then have psint: "sint (mPassCbvOffset t + word_of_int ?idx :: UINT) = int (3 * 23 + f)"
    by (simp only: pword sint_of_nat_small)
  have c1: "mCbvHeap t = Some ?h" by (rule heap)
  have c2: "mCommandQueue t' = mCommandQueue t @ [ExecuteCommandLists ?cl, Signal (mCurrentFence t + 1)]"
    by (rule t')
  have c3: "objectViews (of_nat (length (mOpaqueRitems t))) =
             concat (map (\<lambda>f. map (\<lambda>i. (int (f * length (mOpaqueRitems t) + i), ObjectCBV f i))
                                 [0..<length (mOpaqueRitems t)]) [0..<3])"
    by (simp only: n objectViews_eq [OF small]) (simp add: upt_0_3)
  have c4: "mPassCbvOffset t = of_nat (length (mOpaqueRitems t) * 3)"
    by (simp only: n off)
  have c5: "passViews (mPassCbvOffset t) =
             map (\<lambda>f. (int (length (mOpaqueRitems t) * 3 + f), PassCBV f)) [0..<3]"
    using passViews_eq [OF small] by (simp add: n off upt_0_3)
  have c6: "passCbvIndex ?cl = int (length (mOpaqueRitems t) * 3) + ?idx"
    unfolding CommandList.simps psint by (simp add: n f(2))
  have c7: "map (\<lambda>dc. sint (cbvIndex dc)) (draws ?cl) =
             map (\<lambda>e. ?idx * int (length (mOpaqueRitems t)) + uint (ObjCBIndex e)) (mAllRitems t)"
  proof -
    have "map (\<lambda>dc. sint (cbvIndex dc)) dcs = map sint (map cbvIndex dcs)"
      by (simp add: o_def)
    also have "\<dots> = map (\<lambda>e. sint (word_of_int ?idx * of_nat 23 + ObjCBIndex e :: UINT)) (mAllRitems t)"
      by (simp only: cbv map_map o_def)
    also have "\<dots> = map (\<lambda>e. ?idx * int 23 + uint (ObjCBIndex e)) (mAllRitems t)"
    proof (rule map_cong [OF refl])
      fix e assume "e \<in> set (mAllRitems t)"
      from sint [OF this]
      show "sint (word_of_int ?idx * of_nat 23 + ObjCBIndex e :: UINT)
              = ?idx * int 23 + uint (ObjCBIndex e)"
        by (simp add: f(2))
    qed
    finally show ?thesis by (simp add: n)
  qed
  have c8: "views ?h (passCbvIndex ?cl) = Some (PassCBV (nat ?idx))"
    using heap_lookup(2) [OF small f(1), of 72] by (simp only: CommandList.simps psint f_def)
  have c9: "map (\<lambda>dc. views ?h (sint (cbvIndex dc))) (draws ?cl) =
             map (\<lambda>e. Some (ObjectCBV (nat ?idx) (unat (ObjCBIndex e)))) (mAllRitems t)"
  proof -
    have "map (\<lambda>dc. views ?h (sint (cbvIndex dc))) dcs
            = map (\<lambda>c. views ?h (sint c)) (map cbvIndex dcs)"
      by (simp add: o_def)
    also have "\<dots> = map (\<lambda>e. views ?h (sint (word_of_int ?idx * of_nat 23 + ObjCBIndex e :: UINT)))
                       (mAllRitems t)"
      by (simp only: cbv map_map o_def)
    also have "\<dots> = map (\<lambda>e. Some (ObjectCBV f (unat (ObjCBIndex e)))) (mAllRitems t)"
    proof (rule map_cong [OF refl])
      fix e assume e: "e \<in> set (mAllRitems t)"
      from heap_lookup(1) [OF small f(1) below [OF e], of 72]
      show "views ?h (sint (word_of_int ?idx * of_nat 23 + ObjCBIndex e :: UINT))
              = Some (ObjectCBV f (unat (ObjCBIndex e)))"
        by (simp only: sint [OF e])
    qed
    finally show ?thesis by (simp add: f_def)
  qed
  from c1 c2 c3 c4 c5 c6 c7 c8 c9 show ?thesis
    by (intro exI [of _ ?h] exI [of _ ?cl] exI [of _ "mCurrentFence t + 1"] conjI)
qed

theorem descriptor_addressing_witness:
  "\<exists>s t t' cl v.
     Initialize small_meshes (\<lambda>k. Identity4x4) 0 (ShapesApp_new (0, 0) 0 :: unit ShapesApp) = Returns s \<and>
     run [CallUpdate ok_update] s = Returns t \<and> Draw ok_draw t = Returns t' \<and>
     mCommandQueue t' = mCommandQueue t @ [ExecuteCommandLists cl, Signal v] \<and>
     passCbvIndex cl = int (length (mOpaqueRitems t) * 3) + mCurrFrameResourceIndex t"
proof -
  from small_meshes_total obtain s where
    i: "Initialize small_meshes (\<lambda>k. Identity4x4) 0 (ShapesApp_new (0, 0) 0 :: unit ShapesApp) = Returns s"
    by blast
  from first_frame_returns [OF i] obtain t t' where
    u: "Update ok_update s = Returns t" and d: "Draw ok_draw t = Returns t'"
    by blast
  from u have r: "run [CallUpdate ok_update] s = Returns t" by simp
  from descriptor_addressing [OF i r d] obtain cl v where
    "mCommandQueue t' = mCommandQueue t @ [ExecuteCommandLists cl, Signal v]"
    "passCbvIndex cl = int (length (mOpaqueRitems t) * 3) + mCurrFrameResourceIndex t"
    by blast
  with i r d show ?thesis by blast
qed


section \<open>The submeshes of the shared geometry\<close>

text \<open>
  The offsets that \<^verbatim>\<open>BuildShapeGeometry\<close> stores for the rooftop, the diamond and the
  second diamond, for any meshes: the rooftop starts at the sum of three vertex counts,
  and the two diamonds are shifted by their own sizes instead of the size of the mesh
  before them.
\<close>

lemma ShapeGeometry_offsets:
  assumes "ShapeGeometry g = Returns geo"
  shows "SubmeshGeometry.StartIndexLocation (DrawArgs_at geo ''rooftop'')
           = nVertices (box g) + nVertices (cylinder g) + nVertices (grid g)"
    and "SubmeshGeometry.StartIndexLocation (DrawArgs_at geo ''diamond'')
           = nIndices (box g) + nIndices (cylinder g) + nIndices (grid g) + nIndices (rooftop g)
             + nIndices (door g) + nIndices (cone g) + nIndices (wedge g) + nIndices (torus g)
             + nIndices (diamond g)"
    and "SubmeshGeometry.StartIndexLocation (DrawArgs_at geo ''diamond1'')
           = nIndices (box g) + nIndices (cylinder g) + nIndices (grid g) + nIndices (rooftop g)
             + nIndices (door g) + nIndices (cone g) + nIndices (wedge g) + nIndices (torus g)
             + nIndices (diamond g) + nIndices (diamond1 g)"
    and "IndexBufferCPU geo =
           GetIndices16 (box g) @ GetIndices16 (cylinder g) @ GetIndices16 (grid g)
             @ GetIndices16 (rooftop g) @ GetIndices16 (door g) @ GetIndices16 (cone g)
             @ GetIndices16 (wedge g) @ GetIndices16 (torus g) @ GetIndices16 (pyramid g)
             @ GetIndices16 (diamond g) @ GetIndices16 (diamond1 g)"
  using assms
  by (auto simp: ShapeGeometry_def Let_def DrawArgs_at_def Submesh_def split: if_splits)

lemmas geometry_defs =
  ShapeGeometry_def small_meshes_def quad_def triangle_def square_pyramid_def octahedron_def
  nVertices_def nIndices_def Submesh_def colored_def GetIndices16_def DrawArgs_at_def
  submesh_indices_def Let_def

text \<open>
  Claim C5.  On the small meshes (quads with 4 vertices and 6 indices, a triangle as the
  rooftop, a square pyramid with 5 vertices and 18 indices, two octahedra with 6 vertices
  and 24 indices as the diamonds) the combined buffers hold 111 indices and 48 vertices.
  The rooftop's own indices lie at positions 18 to 20, but its submesh starts at 12 and
  covers indices of the grid.  The diamond's own indices start at 63 and its own vertices
  at 36, but its submesh starts at 69 with base vertex 37.  The second diamond's submesh
  starts at 93 with 24 indices, beyond the 111 indices of the buffer, and its base vertex
  43 plus the referenced vertex 5 is beyond the 48 vertices.
\<close>

theorem BuildShapeGeometry_misplaces_submeshes:
  "\<exists>geo. ShapeGeometry small_meshes = Returns geo \<and>
     length (IndexBufferCPU geo) = 111 \<and> length (VertexBufferCPU geo) = 48 \<and>
     take 3 (drop 18 (IndexBufferCPU geo)) = GetIndices16 (rooftop small_meshes) \<and>
     GetIndices16 (rooftop small_meshes) = [0, 2, 1] \<and>
     SubmeshGeometry.StartIndexLocation (DrawArgs_at geo ''rooftop'') = 12 \<and>
     SubmeshGeometry.IndexCount (DrawArgs_at geo ''rooftop'') = 3 \<and>
     submesh_indices geo (DrawArgs_at geo ''rooftop'') = [0, 1, 2] \<and>
     take 24 (drop 63 (IndexBufferCPU geo)) = GetIndices16 (diamond small_meshes) \<and>
     SubmeshGeometry.StartIndexLocation (DrawArgs_at geo ''diamond'') = 69 \<and>
     SubmeshGeometry.BaseVertexLocation (DrawArgs_at geo ''diamond'') = 37 \<and>
     submesh_indices geo (DrawArgs_at geo ''diamond'') \<noteq> GetIndices16 (diamond small_meshes) \<and>
     SubmeshGeometry.StartIndexLocation (DrawArgs_at geo ''diamond1'') = 93 \<and>
     SubmeshGeometry.IndexCount (DrawArgs_at geo ''diamond1'') = 24 \<and>
     length (IndexBufferCPU geo)
       < unat (SubmeshGeometry.StartIndexLocation (DrawArgs_at geo ''diamond1''))
         + unat (SubmeshGeometry.IndexCount (DrawArgs_at geo ''diamond1'')) \<and>
     length (submesh_indices geo (DrawArgs_at geo ''diamond1'')) = 18 \<and>
     SubmeshGeometry.BaseVertexLocation (DrawArgs_at geo ''diamond1'') = 43 \<and>
     5 \<in> set (GetIndices16 (diamond1 small_meshes)) \<and>
     int (length (VertexBufferCPU geo))
       \<le> SubmeshGeometry.BaseVertexLocation (DrawArgs_at geo ''diamond1'') + 5"
  by (simp add: geometry_defs)


section \<open>Rounding to single precision\<close>


lemma pow2_powr: "pow2 e = 2 powr (real_of_int e)"
proof (cases "0 \<le> e")
  case True
  then have "2 powr (real_of_int e) = 2 powr (real (nat e))" by simp
  also have "\<dots> = 2 ^ nat e" by (simp add: powr_realpow)
  finally show ?thesis using True by (simp add: pow2_def)
next
  case False
  then have "2 powr (real_of_int e) = 2 powr (- real (nat (- e)))" by simp
  also have "\<dots> = 1 / 2 ^ nat (- e)" by (simp add: powr_minus powr_realpow field_simps)
  finally show ?thesis using False by (simp add: pow2_def)
qed

lemma pow2_pos [simp]: "0 < pow2 e"
  by (simp add: pow2_powr)

lemma pow2_add: "pow2 (a + b) = pow2 a * pow2 b"
  by (simp add: pow2_powr powr_add)

lemma pow2_le_iff [simp]: "pow2 a \<le> pow2 b \<longleftrightarrow> a \<le> b"
  by (simp add: pow2_powr)

lemma pow2_less_iff [simp]: "pow2 a < pow2 b \<longleftrightarrow> a < b"
  by (simp add: pow2_powr)

lemma pow2_nat: "pow2 (int n) = 2 ^ n"
  by (simp add: pow2_def)

lemma expo_spec:
  "e - int n \<le> expo n a e \<and> expo n a e \<le> e \<and>
   (expo n a e = e - int n \<or> pow2 (expo n a e) \<le> a) \<and>
   (expo n a e = e \<or> a < pow2 (expo n a e + 1))"
proof (induction n arbitrary: e)
  case 0
  then show ?case by simp
next
  case (Suc n)
  show ?case
  proof (cases "pow2 e \<le> a")
    case True
    then show ?thesis by simp
  next
    case False
    from Suc [of "e - 1"] False show ?thesis by auto
  qed
qed

lemma float_exponent_spec:
  "- 126 \<le> float_exponent x \<and> float_exponent x \<le> 127 \<and>
   (float_exponent x = - 126 \<or> pow2 (float_exponent x) \<le> \<bar>x\<bar>) \<and>
   (float_exponent x = 127 \<or> \<bar>x\<bar> < pow2 (float_exponent x + 1))"
  using expo_spec [of 127 253 "\<bar>x\<bar>"] by (simp add: float_exponent_def)

lemma float_exponent_eq:
  assumes "pow2 e \<le> \<bar>x\<bar>" and "\<bar>x\<bar> < pow2 (e + 1)" and "- 126 \<le> e" and "e \<le> 127"
  shows "float_exponent x = e"
proof -
  let ?f = "float_exponent x"
  note S = float_exponent_spec [of x]
  have "?f \<le> e"
  proof (rule ccontr)
    assume "\<not> ?f \<le> e"
    then have l: "e + 1 \<le> ?f" by simp
    with assms(3) S have "pow2 ?f \<le> \<bar>x\<bar>" by auto
    from this assms(2) have "pow2 ?f < pow2 (e + 1)" by (rule order_le_less_trans)
    with l show False by simp
  qed
  moreover have "e \<le> ?f"
  proof (rule ccontr)
    assume "\<not> e \<le> ?f"
    then have l: "?f + 1 \<le> e" by simp
    with assms(4) S have "\<bar>x\<bar> < pow2 (?f + 1)" by auto
    with assms(1) have "pow2 e < pow2 (?f + 1)" by (rule order_le_less_trans)
    with l show False by simp
  qed
  ultimately show ?thesis by simp
qed

lemma rne_floor_ceiling: "\<lfloor>x\<rfloor> \<le> rne x \<and> rne x \<le> \<lceil>x\<rceil>"
proof -
  have "x - of_int \<lfloor>x\<rfloor> \<noteq> 0 \<Longrightarrow> \<lfloor>x\<rfloor> + 1 \<le> \<lceil>x\<rceil>"
    by (metis ceiling_altdef eq_iff_diff_eq_0 order_refl)
  then show ?thesis by (auto simp: rne_def Let_def)
qed

lemma rne_of_int [simp]: "rne (of_int k) = k"
  by (simp add: rne_def)

lemma rne_abs_le:
  assumes "\<bar>x\<bar> \<le> of_int N"
  shows "\<bar>rne x\<bar> \<le> N"
proof -
  from assms have "x \<le> of_int N" "of_int (- N) \<le> x" by simp_all
  then have "\<lceil>x\<rceil> \<le> N" "- N \<le> \<lfloor>x\<rfloor>" by (simp_all add: ceiling_le_iff le_floor_iff)
  with rne_floor_ceiling [of x] show ?thesis by linarith
qed


lemma pow2_neq_0 [simp]: "pow2 e \<noteq> 0"
  by (metis pow2_pos less_irrefl)

lemma abs_pow2 [simp]: "\<bar>pow2 e\<bar> = pow2 e"
  by (metis pow2_pos abs_of_pos)

lemma pow2_split:
  "pow2 (e + 1) = pow2 24 * pow2 (e - 23)" "pow2 e = pow2 23 * pow2 (e - 23)"
proof -
  have "e + 1 = 24 + (e - 23)" by simp
  then have "pow2 (e + 1) = pow2 (24 + (e - 23))" by (rule arg_cong)
  also have "\<dots> = pow2 24 * pow2 (e - 23)" by (rule pow2_add)
  finally show "pow2 (e + 1) = pow2 24 * pow2 (e - 23)" .
  have "e = 23 + (e - 23)" by simp
  then have "pow2 e = pow2 (23 + (e - 23))" by (rule arg_cong)
  also have "\<dots> = pow2 23 * pow2 (e - 23)" by (rule pow2_add)
  finally show "pow2 e = pow2 23 * pow2 (e - 23)" .
qed

lemma pow2_numeral_24: "pow2 24 = 16777216" "pow2 23 = 8388608"
  by (simp_all add: pow2_def)

lemma rne_eq:
  assumes "real_of_int m - 1 / 2 < y" and "y < real_of_int m + 1 / 2"
  shows "rne y = m"
proof (cases "real_of_int m \<le> y")
  case True
  with assms(2) have "\<lfloor>y\<rfloor> = m" by (simp add: floor_unique)
  with assms(2) show ?thesis by (simp add: rne_def Let_def)
next
  case False
  with assms(1) have "\<lfloor>y\<rfloor> = m - 1" by (simp add: floor_unique)
  with assms(1) False show ?thesis by (simp add: rne_def Let_def)
qed

text \<open>The magnitude of the rounded value when the exponent is in the binade of \<open>x\<close>.\<close>

lemma round_at_most_next_power:
  assumes "\<bar>x\<bar> < pow2 (e + 1)"
  shows "\<bar>real_of_int (rne (x / pow2 (e - 23))) * pow2 (e - 23)\<bar> \<le> pow2 (e + 1)"
proof -
  let ?u = "pow2 (e - 23)"
  note u = pow2_split(1) [of e]
  from assms have "\<bar>x\<bar> < pow2 24 * ?u" by (simp only: u)
  then have "\<bar>x\<bar> / ?u < pow2 24" by (simp add: pos_divide_less_eq)
  then have "\<bar>x / ?u\<bar> \<le> pow2 24" by simp
  then have "\<bar>x / ?u\<bar> \<le> real_of_int 16777216" by (simp add: pow2_numeral_24)
  then have "\<bar>rne (x / ?u)\<bar> \<le> 16777216" by (rule rne_abs_le)
  then have "real_of_int \<bar>rne (x / ?u)\<bar> \<le> pow2 24" by (simp add: pow2_numeral_24)
  then have "\<bar>real_of_int (rne (x / ?u)) * ?u\<bar> \<le> pow2 24 * ?u"
    by (simp add: abs_mult)
  then show ?thesis by (simp add: u)
qed

lemma round32_bound:
  assumes "\<bar>x\<bar> \<le> 2 ^ k" and "k \<le> 127"
  shows "\<exists>r. round32 x = Finite r \<and> \<bar>r\<bar> \<le> 2 ^ k"
proof -
  let ?e = "float_exponent x"
  let ?u = "pow2 (?e - 23)"
  let ?r = "real_of_int (rne (x / ?u)) * ?u"
  note S = float_exponent_spec [of x]
  have x: "\<bar>x\<bar> \<le> pow2 (int k)" using assms(1) by (simp add: pow2_nat)
  from assms(2) have k128: "pow2 (int k) < pow2 128" by simp
  from x k128 have x128: "\<bar>x\<bar> < pow2 128" by (rule order_le_less_trans)
  with S have lt: "\<bar>x\<bar> < pow2 (?e + 1)" by auto
  note r1 = round_at_most_next_power [OF lt]
  have r: "\<bar>?r\<bar> \<le> pow2 (int k)"
  proof (cases "?e + 1 \<le> int k")
    case True
    then have "pow2 (?e + 1) \<le> pow2 (int k)" by simp
    with r1 show ?thesis by (rule order_trans)
  next
    case False
    then have ge: "int k \<le> ?e" by simp
    then have "?e \<noteq> - 126" by simp
    with S have l: "pow2 ?e \<le> \<bar>x\<bar>" by blast
    from l x have "pow2 ?e \<le> pow2 (int k)" by (rule order_trans)
    with ge have e: "?e = int k" by simp
    from l x have ax: "\<bar>x\<bar> = pow2 ?e" unfolding e by (rule order_antisym [rotated])
    note p = pow2_split(2) [of ?e]
    have "x = pow2 ?e \<or> x = - pow2 ?e" using ax by (auto simp: abs_if split: if_splits)
    then have "x = pow2 23 * ?u \<or> x = - (pow2 23 * ?u)" by (simp only: p [symmetric])
    then have "x / ?u = pow2 23 \<or> x / ?u = - pow2 23"
    proof
      assume "x = pow2 23 * ?u"
      then have "x / ?u = pow2 23" by (simp add: divide_eq_eq)
      then show ?thesis ..
    next
      assume "x = - (pow2 23 * ?u)"
      then have "x / ?u = - pow2 23" by (simp add: divide_eq_eq)
      then show ?thesis ..
    qed
    then have "x / ?u = real_of_int 8388608 \<or> x / ?u = real_of_int (- 8388608)"
      by (simp add: pow2_numeral_24)
    then have "\<bar>rne (x / ?u)\<bar> = 8388608" by (auto simp only: rne_of_int)
    then have "\<bar>?r\<bar> = pow2 23 * ?u" by (simp add: abs_mult pow2_numeral_24)
    then have "\<bar>?r\<bar> = pow2 ?e" by (simp only: p [symmetric])
    then show ?thesis by (simp only: e)
  qed
  from r k128 have "\<not> pow2 128 \<le> \<bar>?r\<bar>" by linarith
  then have "round32 x = Finite ?r" by (simp add: round32_def Let_def)
  with r show ?thesis by (simp add: pow2_nat)
qed

lemma round32_eval:
  assumes "pow2 e \<le> \<bar>x\<bar>" and "\<bar>x\<bar> < pow2 (e + 1)" and "- 126 \<le> e" and "e < 127"
    and "real_of_int m - 1 / 2 < x / pow2 (e - 23)"
    and "x / pow2 (e - 23) < real_of_int m + 1 / 2"
  shows "round32 x = Finite (real_of_int m * pow2 (e - 23))"
proof -
  from assms(4) have "e \<le> 127" by simp
  note e = float_exponent_eq [OF assms(1,2,3) this]
  note m = rne_eq [OF assms(5,6)]
  from assms(4) have "pow2 (e + 1) < pow2 128" by simp
  with round_at_most_next_power [OF assms(2)]
  have "\<not> pow2 128 \<le> \<bar>real_of_int (rne (x / pow2 (e - 23))) * pow2 (e - 23)\<bar>"
    by linarith
  then show ?thesis by (simp add: round32_def Let_def e m)
qed


section \<open>Bounds on pi\<close>


lemma arctan_between:
  assumes "0 < x" and "x \<le> 1"
  shows "(\<Sum>i<2 * n. (- 1) ^ i * (1 / real (i * 2 + 1) * x ^ (i * 2 + 1))) \<le> arctan x"
    and "arctan x \<le> (\<Sum>i<2 * n + 1. (- 1) ^ i * (1 / real (i * 2 + 1) * x ^ (i * 2 + 1)))"
proof -
  from assms have a: "\<bar>x\<bar> \<le> 1" by simp
  from assms(1) have "0 < 1 / real (0 * 2 + 1) * x ^ (0 * 2 + 1)" by simp
  with summable_Leibniz(2) [OF zeroseq_arctan_series [OF a] monoseq_arctan_series [OF a]]
  have "arctan x \<in> {(\<Sum>i<2 * n. (- 1) ^ i * (1 / real (i * 2 + 1) * x ^ (i * 2 + 1))) ..
                     (\<Sum>i<2 * n + 1. (- 1) ^ i * (1 / real (i * 2 + 1) * x ^ (i * 2 + 1)))}"
    unfolding arctan_series [OF a] by blast
  then show "(\<Sum>i<2 * n. (- 1) ^ i * (1 / real (i * 2 + 1) * x ^ (i * 2 + 1))) \<le> arctan x"
    and "arctan x \<le> (\<Sum>i<2 * n + 1. (- 1) ^ i * (1 / real (i * 2 + 1) * x ^ (i * 2 + 1)))"
    by simp_all
qed

lemma pi_bounds: "3.1415 < pi" "pi < 3.1415928"
proof -
  have m: "pi = 16 * arctan (1 / 5) - 4 * arctan (1 / 239)"
    using machin by simp
  have u5: "arctan (1 / 5) \<le> 1 / 5 - 1 / 375 + 1 / 15625 - 1 / 546875 + 1 / 17578125"
    using arctan_between(2) [of "1 / 5" 2] by (simp add: eval_nat_numeral)
  have l5: "1 / 5 - 1 / 375 + 1 / 15625 - 1 / 546875 \<le> arctan (1 / 5)"
    using arctan_between(1) [of "1 / 5" 2] by (simp add: eval_nat_numeral)
  have u239: "arctan (1 / 239) \<le> 1 / 239"
    using arctan_between(2) [of "1 / 239" 0] by simp
  have l239: "1 / 239 - 1 / 40955757 \<le> arctan (1 / 239)"
    using arctan_between(1) [of "1 / 239" 1] by (simp add: eval_nat_numeral)
  from l5 u239 show "3.1415 < pi" unfolding m by simp
  from u5 l239 show "pi < 3.1415928" unfolding m by simp
qed



section \<open>The camera\<close>

lemma round32_not_NaN [simp]: "round32 x \<noteq> NaN"
  by (simp add: round32_def Let_def)

lemma bounded_by_Finite: "bounded_by k a \<Longrightarrow> \<exists>x. a = Finite x \<and> \<bar>x\<bar> \<le> 2 ^ k"
  by (cases a) simp_all

lemma bounded_by_round32: "\<bar>x\<bar> \<le> 2 ^ k \<Longrightarrow> k \<le> 127 \<Longrightarrow> bounded_by k (round32 x)"
  using round32_bound [of x k] by auto

lemma float_of_INT32_bounded: "bounded_by 31 (float_of_INT32 i)"
proof -
  have "- (2 ^ 31) \<le> sint i" "sint i < 2 ^ 31"
    using sint_ge [of i] sint_lt [of i] by simp_all
  then have "\<bar>sint i\<bar> \<le> 2 ^ 31" by linarith
  then have "real_of_int \<bar>sint i\<bar> \<le> real_of_int (2 ^ 31)" by (simp only: of_int_le_iff)
  then have "\<bar>real_of_int (sint i)\<bar> \<le> 2 ^ 31"
    by (simp only: of_int_abs of_int_power of_int_numeral)
  then show ?thesis unfolding float_of_INT32_def by (rule bounded_by_round32) simp
qed

lemma fmul_small_bounded:
  assumes "bounded_by k a" and "\<bar>c\<bar> \<le> 1" and "k \<le> 127"
  shows "bounded_by k (fmul (Finite c) a)"
proof -
  from bounded_by_Finite [OF assms(1)] obtain x where a: "a = Finite x" and x: "\<bar>x\<bar> \<le> 2 ^ k"
    by blast
  have "\<bar>c * x\<bar> = \<bar>c\<bar> * \<bar>x\<bar>" by (rule abs_mult)
  also from assms(2) x have "\<dots> \<le> 1 * 2 ^ k" by (intro mult_mono) simp_all
  finally have "\<bar>c * x\<bar> \<le> 2 ^ k" by simp
  from bounded_by_round32 [OF this assms(3)] show ?thesis by (simp add: a)
qed

lemma float_constants:
  "round32 0.25 = Finite (1 / 4)" "round32 0.005 = Finite (5368709 / 2 ^ 30)"
  "round32 0.1 = Finite (13421773 / 2 ^ 27)" "round32 180 = Finite 180"
  "round32 3 = Finite 3" "round32 15 = Finite 15"
  "round32 0.2 = Finite (13421773 / 2 ^ 26)" "round32 1.5 = Finite (3 / 2)"
  "XM_PI = Finite (13176795 / 2 ^ 22)" "MathHelper_Pi = Finite (13176795 / 2 ^ 22)"
  using round32_eval [of "- 2" "0.25" 8388608] round32_eval [of "- 8" "0.005" 10737418]
    round32_eval [of "- 4" "0.1" 13421773] round32_eval [of 7 180 11796480]
    round32_eval [of 1 3 12582912] round32_eval [of 3 15 15728640]
    round32_eval [of "- 3" "0.2" 13421773] round32_eval [of 0 "1.5" 12582912]
    round32_eval [of 1 "3.141592654" 13176795] round32_eval [of 1 "3.1415926535" 13176795]
  by (simp_all add: pow2_def XM_PI_def MathHelper_Pi_def)

lemma float_constants_normal:
  "round32 (1 / 4) = Finite (1 / 4)" "round32 (1 / 200) = Finite (5368709 / 2 ^ 30)"
  "round32 (1 / 10) = Finite (13421773 / 2 ^ 27)" "round32 (1 / 5) = Finite (13421773 / 2 ^ 26)"
  "round32 (3 / 2) = Finite (3 / 2)"
  using float_constants(1-3,7,8) by simp_all

lemma radians_factor: "fdiv XM_PI (round32 180) = Finite (9370165 / 2 ^ 29)"
  unfolding float_constants
  using round32_eval [of "- 6" "13176795 / 2 ^ 22 / 180" 9370165]
  by (simp add: pow2_def)

lemma phi_upper: "fsub MathHelper_Pi (round32 0.1) = Finite (12757365 / 2 ^ 22)"
  unfolding float_constants
  using round32_eval [of 1 "13176795 / 2 ^ 22 - 13421773 / 2 ^ 27" 12757365]
  by (simp add: fsub_def pow2_def)

lemma initial_phi: "fmul (round32 0.2) XM_PI = Finite (2635359 / 2 ^ 22)"
  unfolding float_constants
  using round32_eval [of "- 1" "13421773 / 2 ^ 26 * (13176795 / 2 ^ 22)" 10541436]
  by (simp add: pow2_def)

lemma Clamp_in_range:
  "low \<le> high \<Longrightarrow> x \<noteq> NaN \<Longrightarrow> in_range (Clamp x (Finite low) (Finite high)) low high"
  by (cases x) (auto simp: Clamp_def)

lemma fmul_Finite_not_NaN: "a \<noteq> NaN \<Longrightarrow> c \<noteq> 0 \<Longrightarrow> fmul a (Finite c) \<noteq> NaN"
  by (cases a) simp_all

lemma fadd_Finite_not_NaN: "a \<noteq> NaN \<Longrightarrow> fadd (Finite p) a \<noteq> NaN"
  by (cases a) simp_all

lemma in_range_Finite: "in_range a low high \<Longrightarrow> \<exists>x. a = Finite x \<and> low \<le> x \<and> x \<le> high"
  by (cases a) simp_all

lemma XMConvertToRadians_not_NaN: "XMConvertToRadians (fmul (round32 0.25) (float_of_INT32 i)) \<noteq> NaN"
proof -
  from bounded_by_Finite [OF float_of_INT32_bounded [of i]] obtain x where
    "float_of_INT32 i = Finite x" by blast
  then have "fmul (round32 0.25) (float_of_INT32 i) \<noteq> NaN"
    unfolding float_constants by simp
  then show ?thesis
    unfolding XMConvertToRadians_def radians_factor by (rule fmul_Finite_not_NaN) simp
qed

lemma zoom_step_Finite: "\<exists>a. fmul (round32 0.005) (float_of_INT32 i) = Finite a"
proof -
  have "bounded_by 31 (fmul (Finite (5368709 / 2 ^ 30)) (float_of_INT32 i))"
    by (rule fmul_small_bounded [OF float_of_INT32_bounded]) simp_all
  from bounded_by_Finite [OF this] show ?thesis unfolding float_constants by blast
qed

lemma OnMouseMove_camera:
  assumes "camera_inv s"
  shows "camera_inv (OnMouseMove b x y s)"
proof -
  from assms in_range_Finite obtain p r where
    p: "mPhi s = Finite p" and r: "mRadius s = Finite r"
    unfolding camera_inv_def by blast
  let ?dy = "XMConvertToRadians (fmul (round32 0.25) (float_of_INT32 (y - snd (mLastMousePos s))))"
  have "fadd (mPhi s) ?dy \<noteq> NaN"
    unfolding p by (rule fadd_Finite_not_NaN) (rule XMConvertToRadians_not_NaN)
  then have 1: "in_range (Clamp (fadd (mPhi s) ?dy) (round32 0.1) (fsub MathHelper_Pi (round32 0.1)))
                  (13421773 / 2 ^ 27) (12757365 / 2 ^ 22)"
    unfolding phi_upper unfolding float_constants by (intro Clamp_in_range) simp_all
  from zoom_step_Finite [of "x - fst (mLastMousePos s)"] zoom_step_Finite [of "y - snd (mLastMousePos s)"]
  obtain a c where
    a: "fmul (round32 0.005) (float_of_INT32 (x - fst (mLastMousePos s))) = Finite a" and
    c: "fmul (round32 0.005) (float_of_INT32 (y - snd (mLastMousePos s))) = Finite c"
    by blast
  have "fadd (mRadius s) (fsub (Finite a) (Finite c)) \<noteq> NaN"
    unfolding r by (rule fadd_Finite_not_NaN) (simp add: fsub_def)
  then have 2: "in_range (Clamp (fadd (mRadius s) (fsub (Finite a) (Finite c))) (round32 3) (round32 15))
                  3 15"
    unfolding float_constants by (intro Clamp_in_range) simp_all
  from assms 1 2 show ?thesis
    unfolding camera_inv_def OnMouseMove_def Let_def a c by simp
qed

lemma step_camera:
  assumes "camera_inv s" and "step e s = Returns s'"
  shows "camera_inv s'"
proof (cases e)
  case (CallUpdate u)
  with assms Update_Returns [of u s s'] show ?thesis by (simp add: camera_inv_def)
next
  case (CallDraw d)
  with assms Draw_Returns [of d s s'] show ?thesis by (auto simp: camera_inv_def)
next
  case (CallOnMouseDown b x y)
  with assms show ?thesis by (auto simp: camera_inv_def OnMouseDown_def)
next
  case (CallOnMouseUp b x y)
  with assms show ?thesis by (auto simp: OnMouseUp_def)
next
  case (CallOnMouseMove b x y)
  with assms OnMouseMove_camera [of s b x y] show ?thesis by auto
next
  case GpuFinishesCommand
  with assms show ?thesis by (auto simp: camera_inv_def GpuProgress_def)
qed

lemma run_camera:
  assumes "run es s = Returns s'" and "camera_inv s"
  shows "camera_inv s'"
  by (rule run_invariant [where P = camera_inv, OF step_camera assms(2) assms(1)])

lemma Initialize_camera:
  assumes "Initialize g W hr (ShapesApp_new p f) = Returns s"
  shows "camera_inv s"
  unfolding camera_inv_def Initialize_Returns(12,13) [OF assms]
  unfolding initial_phi unfolding float_constants
  by simp


text \<open>
  Dragging the mouse 600 pixels down with the left button held, from the initial angle:
  \<open>0.25f * 600\<close> degrees are \<open>5490331 / 2 ^ 21\<close> radians, the sum with the initial angle is
  above the upper bound, and \<^verbatim>\<open>Clamp\<close> returns the bound.
\<close>

lemma drag_down:
  assumes "mPhi s = fmul (round32 0.2) XM_PI"
  shows "mPhi (OnMouseMove MK_LBUTTON 0 600 (OnMouseDown MK_LBUTTON 0 0 s))
           = Finite (12757365 / 2 ^ 22)"
proof -
  have i: "float_of_INT32 (600 - 0) = Finite 600"
    using round32_eval [of 9 600 9830400] by (simp add: float_of_INT32_def pow2_def)
  have d: "fmul (round32 0.25) (Finite 600) = Finite 150"
    unfolding float_constants using round32_eval [of 7 150 9830400] by (simp add: pow2_def)
  have r: "XMConvertToRadians (Finite 150) = Finite (5490331 / 2 ^ 21)"
    unfolding XMConvertToRadians_def radians_factor
    using round32_eval [of 1 "150 * (9370165 / 2 ^ 29)" 10980662] by (simp add: pow2_def)
  have a: "fadd (Finite (2635359 / 2 ^ 22)) (Finite (5490331 / 2 ^ 21)) = Finite (13616021 / 2 ^ 22)"
    using round32_eval [of 1 "2635359 / 2 ^ 22 + 5490331 / 2 ^ 21" 13616021] by (simp add: pow2_def)
  have c: "Clamp (Finite (13616021 / 2 ^ 22)) (round32 0.1) (fsub MathHelper_Pi (round32 0.1))
             = Finite (12757365 / 2 ^ 22)"
    unfolding phi_upper unfolding float_constants by (simp add: Clamp_def)
  have "mPhi (OnMouseMove MK_LBUTTON 0 600 (OnMouseDown MK_LBUTTON 0 0 s))
          = Clamp (fadd (mPhi s)
                     (XMConvertToRadians (fmul (round32 0.25) (float_of_INT32 (600 - 0)))))
              (round32 0.1) (fsub MathHelper_Pi (round32 0.1))"
    by (simp add: OnMouseMove_def OnMouseDown_def MK_LBUTTON_def Let_def)
  then show ?thesis
    unfolding assms unfolding initial_phi i unfolding d unfolding r unfolding a unfolding c .
qed

text \<open>
  Claim C9, as amended.  In every state the application reaches after its
  initialisation, by calls of its entry points in any order and with any arguments, the
  next \<^verbatim>\<open>OnMouseMove\<close>, for any button state and any mouse position, leaves \<open>mPhi\<close> a finite
  number between the \<^verbatim>\<open>float\<close>s \<^verbatim>\<open>0.1f\<close> and \<^verbatim>\<open>MathHelper::Pi - 0.1f\<close>, which are
  \<open>13421773 / 2 ^ 27\<close> and \<open>12757365 / 2 ^ 22\<close>, and \<open>mRadius\<close> a finite number between 3 and
  15.  The angle is above 0.1 and below \<open>pi\<close>: the camera reaches neither pole, and it
  stays away from the origin.
\<close>

theorem camera_stays_bounded:
  assumes "Initialize g W hr (ShapesApp_new p f) = Returns s" and "run es s = Returns s'"
  shows "\<exists>phi r. mPhi (OnMouseMove btnState x y s') = Finite phi \<and>
           mRadius (OnMouseMove btnState x y s') = Finite r \<and>
           round32 0.1 = Finite (13421773 / 2 ^ 27) \<and>
           fsub MathHelper_Pi (round32 0.1) = Finite (12757365 / 2 ^ 22) \<and>
           13421773 / 2 ^ 27 \<le> phi \<and> phi \<le> 12757365 / 2 ^ 22 \<and>
           0.1 < phi \<and> phi < pi \<and> 3 \<le> r \<and> r \<le> 15"
proof -
  from OnMouseMove_camera [OF run_camera [OF assms(2) Initialize_camera [OF assms(1)]]]
  have "in_range (mPhi (OnMouseMove btnState x y s')) (13421773 / 2 ^ 27) (12757365 / 2 ^ 22)"
    and "in_range (mRadius (OnMouseMove btnState x y s')) 3 15"
    by (simp_all add: camera_inv_def)
  with in_range_Finite obtain phi r where
    1: "mPhi (OnMouseMove btnState x y s') = Finite phi" and
    2: "mRadius (OnMouseMove btnState x y s') = Finite r" and
    3: "13421773 / 2 ^ 27 \<le> phi" "phi \<le> 12757365 / 2 ^ 22" and 4: "3 \<le> r" "r \<le> 15"
    by blast
  from 3(1) have 5: "0.1 < phi" by simp
  from 3(2) pi_bounds(1) have 6: "phi < pi" by simp
  from 1 2 float_constants(3) phi_upper 3 5 6 4 show ?thesis by blast
qed

theorem camera_stays_bounded_witness:
  "\<exists>s s'. Initialize small_meshes identity_worlds 0 (ShapesApp_new (0, 0) 0 :: unit ShapesApp)
             = Returns s \<and>
     run [CallOnMouseDown MK_LBUTTON 0 0] s = Returns s' \<and>
     mPhi (OnMouseMove MK_LBUTTON 0 600 s') = Finite (12757365 / 2 ^ 22) \<and>
     (\<exists>r. mRadius (OnMouseMove MK_LBUTTON 0 600 s') = Finite r \<and> 3 \<le> r \<and> r \<le> 15)"
proof -
  from small_meshes_total obtain s where
    i: "Initialize small_meshes identity_worlds 0 (ShapesApp_new (0, 0) 0 :: unit ShapesApp)
          = Returns s"
    by blast
  have r: "run [CallOnMouseDown MK_LBUTTON 0 0] s = Returns (OnMouseDown MK_LBUTTON 0 0 s)"
    by simp
  note v = drag_down [OF Initialize_Returns(12) [OF i]]
  from camera_stays_bounded [OF i r, of MK_LBUTTON 0 600] obtain phi ra where
    "mRadius (OnMouseMove MK_LBUTTON 0 600 (OnMouseDown MK_LBUTTON 0 0 s)) = Finite ra"
    "3 \<le> ra" "ra \<le> 15"
    by blast
  with i r v show ?thesis by blast
qed

theorem camera_above_pi_counterexample:
  "map_option mPhi
     (returned
        (andThen
           (Initialize small_meshes identity_worlds 0 (ShapesApp_new (0, 0) 0 :: unit ShapesApp))
           (run [CallOnMouseDown MK_LBUTTON 0 0, CallOnMouseMove MK_LBUTTON 0 600])))
     = Some (Finite (12757365 / 2 ^ 22)) \<and>
   pi - 0.1 < 12757365 / 2 ^ 22"
proof -
  from small_meshes_total obtain s where
    i: "Initialize small_meshes identity_worlds 0 (ShapesApp_new (0, 0) 0 :: unit ShapesApp)
          = Returns s"
    by blast
  note v = drag_down [OF Initialize_Returns(12) [OF i]]
  have "pi - 0.1 < (12757365 / 2 ^ 22 :: real)" using pi_bounds(2) by simp
  with v show ?thesis by (simp add: i)
qed


section \<open>The fence counter over a run\<close>

text \<open>
  Claim C7.  Every call of \<^verbatim>\<open>Draw\<close> that returns adds one to the CPU-side fence value,
  stores the new value as the fence of the current frame resource, and appends to the
  command queue the frame's command list followed by the signal of the new value.  In
  every run of the initialised application, whose counter the base class left at \<open>f0\<close>,
  with fewer than \<open>2 ^ 64 - 1 - f0\<close> calls of \<^verbatim>\<open>Draw\<close> before this one, the counter has
  counted these calls, the new value is greater than the old one and than every value
  signalled before, and the signalled values are strictly increasing.
\<close>

theorem fence_strictly_increases:
  assumes "Draw d t = Returns t'"
  shows "mCurrentFence t' = mCurrentFence t + 1 \<and>
         (\<exists>p. mCurrFrameResource t = Some p \<and> Fence (mFrameResources t' ! p) = mCurrentFence t') \<and>
         (\<exists>cl. mCommandQueue t' =
                 mCommandQueue t @ [ExecuteCommandLists cl, Signal (mCurrentFence t')]) \<and>
         signals (mCommandQueue t') = signals (mCommandQueue t) @ [mCurrentFence t'] \<and>
         (\<forall>g W hr p f0 s es.
            Initialize g W hr (ShapesApp_new p f0) = Returns s \<and> run es s = Returns t \<and>
            unat f0 + draws_in es < 2 ^ 64 - 1 \<longrightarrow>
              unat (mCurrentFence t') = unat f0 + draws_in es + 1 \<and>
              mCurrentFence t < mCurrentFence t' \<and>
              list_all (\<lambda>v. v < mCurrentFence t') (signals (mCommandQueue t)) \<and>
              sorted_wrt (<) (signals (mCommandQueue t')))"
proof -
  note D = Draw_fence [OF assms]
  from D(2) have 1: "\<exists>p. mCurrFrameResource t = Some p \<and> Fence (mFrameResources t' ! p) = mCurrentFence t'"
    by blast
  from D(4) D(1) have 2: "signals (mCommandQueue t') = signals (mCommandQueue t) @ [mCurrentFence t']"
    by simp
  have 3: "unat (mCurrentFence t') = unat f0 + draws_in es + 1 \<and>
           mCurrentFence t < mCurrentFence t' \<and>
           list_all (\<lambda>v. v < mCurrentFence t') (signals (mCommandQueue t)) \<and>
           sorted_wrt (<) (signals (mCommandQueue t'))"
    if i: "Initialize g W hr (ShapesApp_new p f0) = Returns s" and r: "run es s = Returns t"
      and b: "unat f0 + draws_in es < 2 ^ 64 - 1"
    for g W hr p f0 s and es :: "'a event list"
  proof -
    note I = Initialize_Returns [OF i]
    from b have "unat (mCurrentFence s) + draws_in es < 2 ^ 64" by (simp add: I(14))
    from run_fence_inv [OF r Initialize_fence_inv [OF i] this]
    have inv: "fence_inv t" and u: "unat (mCurrentFence t) = unat f0 + draws_in es"
      by (simp_all add: I(14))
    from u b have "unat (mCurrentFence t) \<noteq> 2 ^ 64 - 1" by simp
    then have n: "mCurrentFence t \<noteq> - 1" using unat_max_64 by metis
    from unat_inc [OF n] u D(1) have a: "unat (mCurrentFence t') = unat f0 + draws_in es + 1"
      by simp
    from word_less_inc [OF n] D(1) have l: "mCurrentFence t < mCurrentFence t'" by simp
    from inv l have v: "list_all (\<lambda>v. v < mCurrentFence t') (signals (mCommandQueue t))"
      by (auto simp: fence_inv_def list_all_iff)
    from Draw_fence_inv [OF assms inv n] have "sorted_wrt (<) (signals (mCommandQueue t'))"
      by (simp add: fence_inv_def)
    with a l v show ?thesis by blast
  qed
  from D(1) 1 D(3) 2 3 show ?thesis by blast
qed

theorem fence_strictly_increases_witness:
  "\<exists>s t t'.
     Initialize small_meshes identity_worlds 0 (ShapesApp_new (0, 0) 0 :: unit ShapesApp) = Returns s \<and>
     run [CallUpdate ok_update] s = Returns t \<and> Draw ok_draw t = Returns t' \<and>
     unat (0 :: UINT64) + draws_in [CallUpdate ok_update] < 2 ^ 64 - 1 \<and>
     mCurrentFence t = 0 \<and> mCurrentFence t' = 1 \<and> unat (mCurrentFence t') = 1 \<and>
     mCurrentFence t < mCurrentFence t' \<and> signals (mCommandQueue t') = [1] \<and>
     sorted_wrt (<) (signals (mCommandQueue t'))"
proof -
  from small_meshes_total obtain s where
    i: "Initialize small_meshes identity_worlds 0 (ShapesApp_new (0, 0) 0 :: unit ShapesApp) = Returns s"
    by blast
  from first_frame_returns [OF i] obtain t t' where
    u: "Update ok_update s = Returns t" and d: "Draw ok_draw t = Returns t'"
    by blast
  from u have r: "run [CallUpdate ok_update] s = Returns t" by simp
  note I = Initialize_Returns [OF i]
  from Update_Returns [OF u] have q: "mCommandQueue t = []" and c: "mCurrentFence t = 0"
    by (simp_all add: I)
  have b: "unat (0 :: UINT64) + draws_in [CallUpdate ok_update] < 2 ^ 64 - 1" by simp
  note F = fence_strictly_increases [OF d]
  from F have 1: "mCurrentFence t' = 1" by (simp add: c)
  from F have 2: "signals (mCommandQueue t') = [1]" by (simp add: q c)
  from F i r b have 3: "unat (mCurrentFence t') = unat (0 :: UINT64) + draws_in [CallUpdate ok_update] + 1 \<and>
      mCurrentFence t < mCurrentFence t' \<and> sorted_wrt (<) (signals (mCommandQueue t'))"
    by blast
  then have 4: "unat (mCurrentFence t') = 1" by simp
  from i r d b c 1 2 3 4 show ?thesis by blast
qed


section \<open>Dirty counters over a run\<close>

text \<open>
  Claim C10.  The render items are created with \<open>NumFramesDirty = 3\<close>.  In every state
  reached from there by calls of the entry points the counter of every item lies between
  0 and 3.  From any such state, over any further run (calls of \<^verbatim>\<open>Update\<close>, \<^verbatim>\<open>Draw\<close>, the
  mouse handlers, progress of the GPU, in any order) no counter rises or gets negative:
  it ends at its old value less the number of calls of \<^verbatim>\<open>Update\<close>, and not below 0.
  \<^verbatim>\<open>UpdateObjectCBs\<close> lowers a counter by one when it is strictly positive and leaves it
  alone otherwise.
\<close>

theorem NumFramesDirty_bounded:
  assumes "Initialize g W hr (ShapesApp_new p f) = Returns s" and "run es s = Returns t"
    and "run es' t = Returns t'" and "UpdateObjectCBs u = Returns u'"
  shows "list_all (\<lambda>e. NumFramesDirty e = 3) (mAllRitems s) \<and>
         list_all (\<lambda>e. 0 \<le> NumFramesDirty e \<and> NumFramesDirty e \<le> 3) (mAllRitems t) \<and>
         list_all2 (\<lambda>e e'. NumFramesDirty e' \<le> NumFramesDirty e) (mAllRitems s) (mAllRitems t) \<and>
         list_all (\<lambda>e. 0 \<le> NumFramesDirty e \<and> NumFramesDirty e \<le> 3) (mAllRitems t') \<and>
         list_all2 (\<lambda>e e'. NumFramesDirty e' \<le> NumFramesDirty e \<and>
                      NumFramesDirty e' = max 0 (NumFramesDirty e - int (updates es')))
           (mAllRitems t) (mAllRitems t') \<and>
         list_all2 (\<lambda>e e'. NumFramesDirty e' =
                      (if 0 < NumFramesDirty e then NumFramesDirty e - 1 else NumFramesDirty e))
           (mAllRitems u) (mAllRitems u')"
proof -
  have "set (map NumFramesDirty (mAllRitems s)) \<subseteq> {3}"
    by (simp add: Initialize_Returns(6) [OF assms(1)])
  then have a: "list_all (\<lambda>e. NumFramesDirty e = 3) (mAllRitems s)"
    by (auto simp: list_all_iff)
  then have b: "list_all (\<lambda>e. 0 \<le> NumFramesDirty e \<and> NumFramesDirty e \<le> 3) (mAllRitems t)"
    by (simp add: run_items [OF assms(2)] list_all_iff age_pow_dirty)
  have c: "list_all2 (\<lambda>e e'. NumFramesDirty e' \<le> NumFramesDirty e) (mAllRitems s) (mAllRitems t)"
    by (simp add: run_items [OF assms(2)] list_all2_map2 list.rel_refl age_pow_dirty)
  from b have b': "list_all (\<lambda>e. 0 \<le> NumFramesDirty e \<and> NumFramesDirty e \<le> 3) (mAllRitems t')"
    by (auto simp: run_items [OF assms(3)] list_all_iff age_pow_dirty)
  from b have m: "list_all2 (\<lambda>e e'. NumFramesDirty e' \<le> NumFramesDirty e \<and>
                      NumFramesDirty e' = max 0 (NumFramesDirty e - int (updates es')))
           (mAllRitems t) (mAllRitems t')"
    by (auto simp: run_items [OF assms(3)] list_all2_map2 list_all2_same age_pow_dirty
          list_all_iff)
  from UpdateObjectCBs_Returns [OF assms(4)]
  have "mAllRitems u' = map age (mAllRitems u)" by auto
  then have d: "list_all2 (\<lambda>e e'. NumFramesDirty e' =
                      (if 0 < NumFramesDirty e then NumFramesDirty e - 1 else NumFramesDirty e))
           (mAllRitems u) (mAllRitems u')"
    by (simp add: list_all2_map2 list.rel_refl)
  from a b c b' m d show ?thesis by blast
qed

theorem NumFramesDirty_bounded_witness:
  "\<exists>s t' u u'.
     Initialize small_meshes identity_worlds 0 (ShapesApp_new (0, 0) 0 :: unit ShapesApp) = Returns s \<and>
     run [] s = Returns s \<and> run ok_frame s = Returns t' \<and>
     UpdateObjectCBs (u :: unit ShapesApp) = Returns u' \<and>
     map NumFramesDirty (mAllRitems s) = replicate 23 3 \<and>
     map NumFramesDirty (mAllRitems t') = replicate 23 2 \<and>
     list_all2 (\<lambda>e e'. NumFramesDirty e' \<le> NumFramesDirty e \<and>
                  NumFramesDirty e' = max 0 (NumFramesDirty e - int (updates ok_frame)))
       (mAllRitems s) (mAllRitems t')"
proof -
  from small_meshes_total obtain s where
    i: "Initialize small_meshes identity_worlds 0 (ShapesApp_new (0, 0) 0 :: unit ShapesApp) = Returns s"
    by blast
  from first_frame_returns [OF i] obtain s1 t' where
    u: "Update ok_update s = Returns s1" and r: "run ok_frame s = Returns t'"
    by blast
  from u obtain v v' where o: "UpdateObjectCBs (v :: unit ShapesApp) = Returns v'"
    by (auto simp: Update_def)
  have r0: "run [] s = Returns s" by simp
  note I = Initialize_Returns [OF i]
  have "mAllRitems t' = map (age ^^ updates ok_frame) (mAllRitems s)" by (rule run_items [OF r])
  then have "map NumFramesDirty (mAllRitems t') = map (NumFramesDirty \<circ> age) (mAllRitems s)"
    by (simp add: ok_frame_def)
  also have "\<dots> = map (\<lambda>n. if 0 < n then n - 1 else n) (map NumFramesDirty (mAllRitems s))"
    by (simp add: o_def)
  also have "\<dots> = replicate 23 2" by (simp add: I(6))
  finally have t: "map NumFramesDirty (mAllRitems t') = replicate 23 2" .
  from NumFramesDirty_bounded [OF i r0 r o] i r0 r o I(6) t show ?thesis
    by blast
qed

end
